theory Spec2Isabelle
  imports Main "HOL-Library.Sublist" "HOL-Library.AList"
begin

section \<open>Exceptions\<close>

text \<open>
  The Python exception classes that the plugin code distinguishes in its \<open>except\<close>
  clauses.  \<open>OtherError\<close> stands for any exception that is an \<open>Exception\<close> but neither
  of the named ones (a YAML parser error, an \<open>OSError\<close>, ...).
\<close>

datatype exn = KeyError | ValueError | TypeError | AttributeError | OtherError

section \<open>Translation helpers (utils/translation.py)\<close>

text \<open>
  \<open>MessageText = Union[str, RTextBase]\<close>: a plain string or a rich text object of the
  host, which stays abstract.
\<close>

datatype 'r message_text = Str string | Rich 'r

text \<open>
  The host interface \<open>psi\<close> as far as \<open>ntr\<close> uses it.  \<open>tr\<close> is \<open>psi.tr\<close> with
  \<open>allow_failure=False\<close>, closed over the positional and keyword arguments that \<open>ntr\<close>
  passes through unchanged; its second argument is the language (\<open>None\<close> or a name).
\<close>

record 'r psi =
  tr :: "string \<Rightarrow> string option \<Rightarrow> exn + 'r message_text"
  get_mcdr_language :: string

definition startswith :: "string \<Rightarrow> string \<Rightarrow> bool" where
  "startswith s p = prefix p s"

definition TRANSLATION_KEY_PREFIX :: "string \<Rightarrow> string" where
  "TRANSLATION_KEY_PREFIX plugin_id = plugin_id @ ''.''"

text \<open>
  \<open>sep.join(items)\<close> on a list whose items may be \<open>None\<close>: Python raises \<open>TypeError\<close>
  at the first item that is not a string.
\<close>

fun intercalate :: "string \<Rightarrow> string list \<Rightarrow> string" where
  "intercalate sep [] = []"
| "intercalate sep [x] = x"
| "intercalate sep (x # y # ys) = x @ sep @ intercalate sep (y # ys)"

fun all_strings :: "string option list \<Rightarrow> string list option" where
  "all_strings [] = Some []"
| "all_strings (None # xs) = None"
| "all_strings (Some x # xs) = map_option ((#) x) (all_strings xs)"

definition join_optional :: "string \<Rightarrow> string option list \<Rightarrow> exn + string" where
  "join_optional sep items =
     (case all_strings items of None \<Rightarrow> Inl TypeError | Some xs \<Rightarrow> Inr (intercalate sep xs))"

text \<open>The loop \<open>for item in (...): if item not in languages: languages.append(item)\<close>.\<close>

fun append_new :: "'a list \<Rightarrow> 'a list \<Rightarrow> 'a list" where
  "append_new languages [] = languages"
| "append_new languages (item # items) =
     append_new (if item \<in> set languages then languages else languages @ [item]) items"

definition caught :: "exn \<Rightarrow> bool" where
  "caught e = (e = KeyError \<or> e = ValueError)"

text \<open>
  \<open>ntr\<close>.  The last argument is the host logger's record of \<open>error\<close> lines, returned
  extended.  The result is \<open>Inl\<close> when \<open>ntr\<close> raises.
\<close>

definition ntr ::
  "'r psi \<Rightarrow> string \<Rightarrow> string option \<Rightarrow> string option \<Rightarrow> bool \<Rightarrow>
   'r message_text option \<Rightarrow> bool \<Rightarrow> string list \<Rightarrow> (exn + 'r message_text) \<times> string list" where
  "ntr psi translation_key language mcdr_tr_language allow_failure default_fallback
       log_error_message log =
     (let mcdr_tr_language =
            (if language \<noteq> None \<and> mcdr_tr_language = None then language else mcdr_tr_language)
      in case tr psi translation_key mcdr_tr_language of
           Inr text \<Rightarrow> (Inr text, log)
         | Inl e \<Rightarrow>
             if \<not> caught e then (Inl e, log)
             else
               let fallback_language = get_mcdr_language psi;
                   second = (if fallback_language = ''en_us'' then Inl KeyError
                             else tr psi translation_key (Some ''en_us''))
               in case second of
                    Inr text \<Rightarrow> (Inr text, log)
                  | Inl e2 \<Rightarrow>
                      if \<not> caught e2 then (Inl e2, log)
                      else
                        (case join_optional '', ''
                                (append_new [] [mcdr_tr_language, Some fallback_language, Some ''en_us'']) of
                           Inl e3 \<Rightarrow> (Inl e3, log)
                         | Inr languages \<Rightarrow>
                             if allow_failure then
                               (Inr (case default_fallback of
                                       None \<Rightarrow> Str translation_key
                                     | Some fallback \<Rightarrow> fallback),
                                if log_error_message
                                then log @ [''Error translate text \"'' @ translation_key
                                            @ ''\" to language '' @ languages]
                                else log)
                             else (Inl KeyError, log)))"

text \<open>
  \<open>RTextMCDRTranslation(key, *args, **kwargs).set_translator(ntr)\<close>: the object keeps the
  key and the keyword arguments; the positional arguments are passed through untouched
  and are left out.
\<close>

datatype 'r kwarg = KwBool bool | KwText "'r message_text"

record 'r rtext_mcdr_translation =
  translation_key :: string
  kwargs :: "(string \<times> 'r kwarg) list"

definition rtr ::
  "string \<Rightarrow> string \<Rightarrow> bool \<Rightarrow> (string \<times> 'r kwarg) list \<Rightarrow> 'r rtext_mcdr_translation" where
  "rtr plugin_id key with_prefix kw =
     (let key = (if with_prefix \<and> \<not> startswith key (TRANSLATION_KEY_PREFIX plugin_id)
                 then TRANSLATION_KEY_PREFIX plugin_id @ key else key)
      in \<lparr>translation_key = key, kwargs = kw\<rparr>)"

definition ktr ::
  "string \<Rightarrow> 'r message_text option \<Rightarrow> bool \<Rightarrow> string \<Rightarrow> (string \<times> 'r kwarg) list \<Rightarrow>
   'r rtext_mcdr_translation" where
  "ktr key default_fallback log_error_message pre kw =
     (let actual_translation_key = (if \<not> startswith key pre then pre @ key else key)
      in \<lparr>translation_key = actual_translation_key,
          kwargs = (''log_error_message'', KwBool log_error_message)
                   # (''default_fallback'',
                      KwText (case default_fallback of None \<Rightarrow> Str key | Some d \<Rightarrow> d))
                   # kw\<rparr>)"

section \<open>Schema reconciliation (utils/serializer.py, BlossomSerializable)\<close>

text \<open>
  Parsed configuration data: what the safe loader returns.  A mapping is an association
  list in document order with distinct string keys; floating point numbers are left out.
\<close>

datatype val = VNone | VBool bool | VInt int | VStr string | VList "val list"
  | VDict "(string \<times> val) list"

text \<open>
  A class is given by what \<open>_fix_data\<close> reads from it: \<open>get_field_annotations()\<close>, the
  fields with their declared types in declaration order, and
  \<open>get_default().serialize()\<close>, the serialized default instance.  A declared type is either a
  class derived from \<open>BlossomSerializable\<close> (the test
  \<open>get_origin(target_type) is None and issubclass(target_type, BlossomSerializable)\<close>), which
  is reconciled recursively, or any other type.  The other types stay abstract (\<open>'t\<close>):
  only the host library interprets them.
\<close>

datatype 't ftype = Plain 't | Blossom "'t cls"
and 't cls = Cls (annotations: "(string \<times> 't ftype) list") (default_data: "(string \<times> val) list")

text \<open>
  The host library is not part of the repository, so its two entry points are parameters:
  \<open>deserialize(value, target_type, error_at_redundancy=True)\<close>, which returns the coerced
  value or raises, and the call \<open>target_type(value)\<close> of the type's own constructor, whose
  result is \<open>None\<close> when it raises (the code catches it with a bare \<open>except\<close>).
  \<open>type_default\<close> is \<open>target_type.get_default().serialize()\<close>.
\<close>

record 't host =
  deserialize :: "val \<Rightarrow> 't \<Rightarrow> exn + val"
  construct :: "'t \<Rightarrow> val \<Rightarrow> val option"
  type_default :: "'t \<Rightarrow> val"

text \<open>
  \<open>isinstance(target_type, Serializable)\<close> is asked of the annotation itself, which is a
  class object or a typing alias and never an instance of \<open>Serializable\<close>: the test is
  false for every annotation and the branch it guards is never taken.
\<close>

definition isinstance_Serializable :: "'t \<Rightarrow> bool" where
  "isinstance_Serializable target_type = False"

type_synonym dict = "(string \<times> val) list"

text \<open>
  \<open>BlossomSerializable._fix_data\<close>.  \<open>fix_loop\<close> is the \<open>for\<close> loop over
  \<open>annotations.items()\<close> with the two variables it updates, \<open>fixed_dict\<close> and
  \<open>needs_save\<close>; a \<open>continue\<close> is the recursive call that stores nothing.
  \<open>data.keys()\<close> is evaluated in every iteration and raises \<open>AttributeError\<close> when
  \<open>data\<close> is not a mapping.  From \<open>deserialize\<close> only \<open>ValueError\<close> and
  \<open>TypeError\<close> are caught; every other exception leaves \<open>_fix_data\<close>.  After a caught
  failure \<open>value\<close> still holds \<open>data[key]\<close>, so \<open>target_type(value)\<close> is applied to
  the raw value.
\<close>

fun fix_data :: "'t host \<Rightarrow> 't cls \<Rightarrow> val \<Rightarrow> string list \<Rightarrow> exn + (dict \<times> string list)"
and fix_loop :: "'t host \<Rightarrow> (string \<times> 't ftype) list \<Rightarrow> dict \<Rightarrow> val \<Rightarrow> string list \<Rightarrow>
    dict \<Rightarrow> string list \<Rightarrow> exn + (dict \<times> string list)" where
  "fix_data h (Cls anns dflt) data father_nodes = fix_loop h anns dflt data father_nodes [] []"
| "fix_loop h [] dflt data father_nodes fixed_dict needs_save = Inr (fixed_dict, needs_save)"
| "fix_loop h ((key, target_type) # rest) dflt data father_nodes fixed_dict needs_save =
     (let current_nodes = father_nodes @ [key];
          node_name = intercalate ''.'' current_nodes
      in case data of
           VDict d \<Rightarrow>
             (case map_of d key of
                None \<Rightarrow>
                  (case map_of dflt key of
                     Some dv \<Rightarrow> fix_loop h rest dflt data father_nodes
                                  (AList.update key dv fixed_dict) (needs_save @ [node_name])
                   | None \<Rightarrow> fix_loop h rest dflt data father_nodes fixed_dict needs_save)
              | Some v \<Rightarrow>
                  (case target_type of
                     Blossom single_type \<Rightarrow>
                       (case fix_data h single_type v current_nodes of
                          Inl e \<Rightarrow> Inl e
                        | Inr (single_data, save_nodes) \<Rightarrow>
                            fix_loop h rest dflt data father_nodes
                              (AList.update key (VDict single_data) fixed_dict)
                              (needs_save @ save_nodes))
                   | Plain t \<Rightarrow>
                       (case deserialize h v t of
                          Inr v' \<Rightarrow> fix_loop h rest dflt data father_nodes
                                      (AList.update key v' fixed_dict) needs_save
                        | Inl e \<Rightarrow>
                            if e = ValueError \<or> e = TypeError then
                              (case map_of dflt key of
                                 None \<Rightarrow> fix_loop h rest dflt data father_nodes fixed_dict
                                           (needs_save @ [node_name])
                               | Some dv \<Rightarrow>
                                   fix_loop h rest dflt data father_nodes
                                     (AList.update key
                                        (if isinstance_Serializable t then type_default h t
                                         else (case construct h t v of Some v' \<Rightarrow> v' | None \<Rightarrow> dv))
                                        fixed_dict)
                                     (needs_save @ [node_name]))
                            else Inl e)))
         | _ \<Rightarrow> Inl AttributeError)"


text \<open>
  One iteration of the loop as a function of the field alone: the value to store
  (\<open>None\<close> when the iteration ends in \<open>continue\<close> without storing) and the node names
  it appends to \<open>needs_save\<close>.  The loop is related to it below and then analysed field
  by field.
\<close>

definition field_result ::
  "'t host \<Rightarrow> dict \<Rightarrow> dict \<Rightarrow> string list \<Rightarrow> string \<Rightarrow> 't ftype \<Rightarrow>
   exn + (val option \<times> string list)" where
  "field_result h dflt d father_nodes key target_type =
     (let current_nodes = father_nodes @ [key];
          node_name = intercalate ''.'' current_nodes
      in case map_of d key of
           None \<Rightarrow>
             (case map_of dflt key of
                Some dv \<Rightarrow> Inr (Some dv, [node_name])
              | None \<Rightarrow> Inr (None, []))
         | Some v \<Rightarrow>
             (case target_type of
                Blossom single_type \<Rightarrow>
                  (case fix_data h single_type v current_nodes of
                     Inl e \<Rightarrow> Inl e
                   | Inr (single_data, save_nodes) \<Rightarrow> Inr (Some (VDict single_data), save_nodes))
              | Plain t \<Rightarrow>
                  (case deserialize h v t of
                     Inr v' \<Rightarrow> Inr (Some v', [])
                   | Inl e \<Rightarrow>
                       if e = ValueError \<or> e = TypeError then
                         (case map_of dflt key of
                            None \<Rightarrow> Inr (None, [node_name])
                          | Some dv \<Rightarrow>
                              Inr (Some (if isinstance_Serializable t then type_default h t
                                         else (case construct h t v of Some v' \<Rightarrow> v' | None \<Rightarrow> dv)),
                                   [node_name]))
                       else Inl e)))"

definition store :: "string \<Rightarrow> val option \<Rightarrow> dict \<Rightarrow> dict" where
  "store key vo fixed = (case vo of None \<Rightarrow> fixed | Some v \<Rightarrow> AList.update key v fixed)"


subsection \<open>A host for concrete documents\<close>

text \<open>
  For evaluating the reconciler on concrete documents the host is instantiated for the
  declared types \<open>bool\<close>, \<open>int\<close>, \<open>List[T]\<close> and \<open>Dict[str, T]\<close>.
  \<open>mcdr_deserialize\<close> follows the host library's \<open>deserialize\<close>: a basic class
  accepts data of exactly that type (\<open>type(data) is cls\<close>, so \<open>True\<close> is no
  \<open>int\<close>), a list or dict is coerced element by element, anything else raises
  \<open>TypeError\<close>.  \<open>py_construct\<close> is the Python constructor call: \<open>bool(v)\<close> is the
  truth value, \<open>int(v)\<close> accepts a bool, an int or a string holding an integer literal,
  and calling a typing alias such as \<open>List[int]\<close> raises.  For \<open>int\<close> of a
  string a character is a code point below 256: the whitespace stripped from both ends is
  tab, line feed, vertical tab, form feed, carriage return and space together with the
  two code points above 127 that are spaces (next line and no-break space); then comes an
  optional sign and decimal digits with single underscores between them, and more than
  4300 digits are refused (the default \<open>sys.int_info.default_max_str_digits\<close>).
\<close>

datatype ptype = PBool | PInt | PList ptype | PDict ptype

fun mcdr_deserialize :: "val \<Rightarrow> ptype \<Rightarrow> exn + val"
and deserialize_items :: "val list \<Rightarrow> ptype \<Rightarrow> exn + val list"
and deserialize_values :: "(string \<times> val) list \<Rightarrow> ptype \<Rightarrow> exn + (string \<times> val) list" where
  "mcdr_deserialize (VBool b) PBool = Inr (VBool b)"
| "mcdr_deserialize (VInt i) PInt = Inr (VInt i)"
| "mcdr_deserialize (VList xs) (PList t) =
     (case deserialize_items xs t of Inl e \<Rightarrow> Inl e | Inr ys \<Rightarrow> Inr (VList ys))"
| "mcdr_deserialize (VDict kvs) (PDict t) =
     (case deserialize_values kvs t of Inl e \<Rightarrow> Inl e | Inr kws \<Rightarrow> Inr (VDict kws))"
| "mcdr_deserialize _ _ = Inl TypeError"
| "deserialize_items [] t = Inr []"
| "deserialize_items (x # xs) t =
     (case mcdr_deserialize x t of
        Inl e \<Rightarrow> Inl e
      | Inr y \<Rightarrow> (case deserialize_items xs t of Inl e \<Rightarrow> Inl e | Inr ys \<Rightarrow> Inr (y # ys)))"
| "deserialize_values [] t = Inr []"
| "deserialize_values ((k, x) # kvs) t =
     (case mcdr_deserialize x t of
        Inl e \<Rightarrow> Inl e
      | Inr y \<Rightarrow> (case deserialize_values kvs t of
                    Inl e \<Rightarrow> Inl e
                  | Inr kws \<Rightarrow> Inr ((k, y) # kws)))"

definition is_space :: "char \<Rightarrow> bool" where
  "is_space c = ((of_char c :: nat) \<in> {9, 10, 11, 12, 13, 32, 133, 160})"

definition is_digit :: "char \<Rightarrow> bool" where
  "is_digit c = (48 \<le> (of_char c :: nat) \<and> (of_char c :: nat) \<le> 57)"

definition strip :: "string \<Rightarrow> string" where
  "strip s = rev (dropWhile is_space (rev (dropWhile is_space s)))"

fun digits_ok :: "string \<Rightarrow> bool" where
  "digits_ok [] = False"
| "digits_ok [c] = is_digit c"
| "digits_ok (c # c' # cs) =
     (is_digit c \<and> (if c' = CHR ''_'' then digits_ok cs else digits_ok (c' # cs)))"

definition digits_value :: "string \<Rightarrow> int" where
  "digits_value s =
     foldl (\<lambda>n c. 10 * n + (int (of_char c) - 48)) 0 (filter (\<lambda>c. c \<noteq> CHR ''_'') s)"

definition max_str_digits :: nat where
  "max_str_digits = 4300"

definition int_of_str :: "string \<Rightarrow> int option" where
  "int_of_str s =
     (case strip s of
        [] \<Rightarrow> None
      | c # cs \<Rightarrow>
          (let body = (if c = CHR ''-'' \<or> c = CHR ''+'' then cs else c # cs)
           in if digits_ok body \<and> length (filter is_digit body) \<le> max_str_digits
              then Some (if c = CHR ''-'' then - digits_value body else digits_value body)
              else None))"

fun truthy :: "val \<Rightarrow> bool" where
  "truthy VNone = False"
| "truthy (VBool b) = b"
| "truthy (VInt i) = (i \<noteq> 0)"
| "truthy (VStr s) = (s \<noteq> [])"
| "truthy (VList xs) = (xs \<noteq> [])"
| "truthy (VDict kvs) = (kvs \<noteq> [])"

fun py_construct :: "ptype \<Rightarrow> val \<Rightarrow> val option" where
  "py_construct PBool v = Some (VBool (truthy v))"
| "py_construct PInt (VBool b) = Some (VInt (if b then 1 else 0))"
| "py_construct PInt (VInt i) = Some (VInt i)"
| "py_construct PInt (VStr s) = map_option VInt (int_of_str s)"
| "py_construct PInt _ = None"
| "py_construct (PList t) v = None"
| "py_construct (PDict t) v = None"

definition py_host :: "ptype host" where
  "py_host = \<lparr>deserialize = mcdr_deserialize, construct = py_construct,
              type_default = (\<lambda>t. VNone)\<rparr>"



section \<open>Loading and saving (ConfigurationBase, utils/file_util.py, utils/logger.py)\<close>

text \<open>
  The file system is a map from path names to entries; the content of a directory and
  the parent directories of a file are not modelled, and text is stored decoded.  A
  \<open>world\<close> is everything \<open>load\<close> and \<open>save\<close> act on: the files, the
  \<open>ConfigSerializeLogger\<close> of the configuration, the lines handed to the plugin's
  logger (\<open>console\<close>) and the replies sent to a command source.  \<open>fs_trace\<close> records
  every state the file system goes through, one entry per change, so that what an
  interrupted run leaves behind can be stated.
\<close>

datatype node = File string | Dir

type_synonym fs = "string \<Rightarrow> node option"

datatype level = INFO | WARNING | ERROR

type_synonym message = "level \<times> string"

record 's config_serialize_logger =
  verbose :: "bool option"
  src :: "'s option"
  cached_verbose :: "bool option"
  log_record :: "message list"
  recording :: bool

record 's world =
  files :: fs
  fs_trace :: "fs list"
  lg :: "'s config_serialize_logger"
  console :: "(message \<times> exn option) list"
  replies :: "('s \<times> message) list"

text \<open>
  What the configuration class and the YAML library provide.  \<open>'c\<close> is the typed
  configuration instance, \<open>'f\<close> a round-trip document (\<open>CommentedMap\<close> or whatever
  the round-trip loader returns).  \<open>rt_setitem\<close> is \<open>formatted_config[key] = value\<close>,
  which raises when the loaded document is not a mapping.  Both dumpers are taken to
  succeed on serialized data.
\<close>

record ('t, 'f, 'c) env =
  host :: "'t host"
  schema :: "'t cls"
  cls_deserialize :: "val \<Rightarrow> exn + 'c"
  get_default :: 'c
  serialize :: "'c \<Rightarrow> dict"
  safe_load :: "string \<Rightarrow> exn + val"
  safe_dump :: "val \<Rightarrow> string"
  rt_load :: "string \<Rightarrow> exn + 'f"
  rt_dump :: "'f \<Rightarrow> string"
  rt_setitem :: "'f \<Rightarrow> string \<Rightarrow> val \<Rightarrow> exn + 'f"
  commented_map :: 'f
  open_bundled_file :: "string \<Rightarrow> exn + string"
  data_folder :: string

text \<open>
  A configuration instance with the private fields set by \<open>set_config_path\<close>.
\<close>

record 'c configuration =
  inst :: 'c
  file_path :: string
  bundled_template_path :: string

subsection \<open>os.path (POSIX)\<close>

text \<open>
  \<open>posixpath.basename\<close>, \<open>dirname\<close> and \<open>join\<close> (two arguments), and the temporary
  path \<open>save\<close> derives from the file path.
\<close>

definition basename :: "string \<Rightarrow> string" where
  "basename p = rev (takeWhile (\<lambda>c. c \<noteq> CHR ''/'') (rev p))"

definition dirname :: "string \<Rightarrow> string" where
  "dirname p =
     (let head = rev (dropWhile (\<lambda>c. c \<noteq> CHR ''/'') (rev p))
      in if head \<noteq> [] \<and> head \<noteq> replicate (length head) (CHR ''/'')
         then rev (dropWhile (\<lambda>c. c = CHR ''/'') (rev head)) else head)"

definition path_join :: "string \<Rightarrow> string \<Rightarrow> string" where
  "path_join a b =
     (if b \<noteq> [] \<and> hd b = CHR ''/'' then b
      else if a = [] \<or> last a = CHR ''/'' then a @ b
      else a @ ''/'' @ b)"

definition config_temp_path :: "string \<Rightarrow> string" where
  "config_temp_path fp = path_join (dirname fp) (''temp_'' @ basename fp)"

subsection \<open>file_util\<close>

text \<open>
  \<open>delete\<close> removes a file or a directory tree and does nothing when the path does not
  exist.  \<open>write_text\<close> is \<open>open(path, 'w')\<close> followed by writing the text: opening
  truncates, and every prefix written so far is a state of the file system.
  \<open>os_replace\<close> raises when the source is missing or source and destination are of
  different kinds.  \<open>safe_write\<close> is the context manager together with the dump made
  inside it.
\<close>

definition set_files :: "fs \<Rightarrow> 's world \<Rightarrow> 's world" where
  "set_files f w = w\<lparr>files := f, fs_trace := fs_trace w @ [f]\<rparr>"

definition delete :: "string \<Rightarrow> 's world \<Rightarrow> 's world" where
  "delete target_file_path w =
     (case files w target_file_path of
        Some (File text) \<Rightarrow> set_files ((files w)(target_file_path := None)) w
      | Some Dir \<Rightarrow> set_files ((files w)(target_file_path := None)) w
      | None \<Rightarrow> w)"

fun write_text :: "string \<Rightarrow> string \<Rightarrow> nat \<Rightarrow> 's world \<Rightarrow> 's world" where
  "write_text path text 0 w = set_files ((files w)(path \<mapsto> File [])) w"
| "write_text path text (Suc n) w =
     (let w' = write_text path text n w
      in set_files ((files w')(path \<mapsto> File (take (Suc n) text))) w')"

definition os_replace :: "string \<Rightarrow> string \<Rightarrow> 's world \<Rightarrow> exn option \<times> 's world" where
  "os_replace source dest w =
     (case files w source of
        None \<Rightarrow> (Some OtherError, w)
      | Some Dir \<Rightarrow>
          (if files w dest = None \<or> files w dest = Some Dir
           then (None, set_files ((files w)(source := None, dest \<mapsto> Dir)) w)
           else (Some OtherError, w))
      | Some (File text) \<Rightarrow>
          (if files w dest = Some Dir then (Some OtherError, w)
           else (None, set_files ((files w)(source := None, dest \<mapsto> File text)) w)))"

definition safe_write :: "string \<Rightarrow> string \<Rightarrow> 's world \<Rightarrow> exn option \<times> 's world" where
  "safe_write target_file_path text w =
     (let temp_file_path = target_file_path @ ''.tmp'';
          w1 = delete temp_file_path w;
          w2 = write_text temp_file_path text (length text) w1
      in os_replace temp_file_path target_file_path w2)"

text \<open>
  \<open>lf_read\<close> (not bundled): the text with \<open>CRLF\<close> and then \<open>CR\<close> replaced by
  \<open>LF\<close>; reading something that is not a file raises.
\<close>

fun lf :: "string \<Rightarrow> string" where
  "lf [] = []"
| "lf (c # cs) =
     (if c = CHR 0x0D then
        (case cs of
           [] \<Rightarrow> [CHR 0x0A]
         | c' # cs' \<Rightarrow> if c' = CHR 0x0A then CHR 0x0A # lf cs' else CHR 0x0A # lf cs)
      else c # lf cs)"

definition lf_read :: "string \<Rightarrow> 's world \<Rightarrow> exn + string" where
  "lf_read target_file_path w =
     (case files w target_file_path of
        Some (File text) \<Rightarrow> Inr (lf text)
      | _ \<Rightarrow> Inl OtherError)"

subsection \<open>ConfigSerializeLogger\<close>

text \<open>
  \<open>ConfigSerializeLogger\<close>: \<open>log\<close> records the message while recording, replies to
  the source when there is one, and hands the line to the plugin's logger when verbose.
  The two context managers are split into what happens on entry and in their
  \<open>finally\<close> clause.
\<close>

definition new_logger :: "'s config_serialize_logger" where
  "new_logger = \<lparr>verbose = Some True, src = None, cached_verbose = None, log_record = [],
                 recording = False\<rparr>"

definition log :: "message \<Rightarrow> exn option \<Rightarrow> 's world \<Rightarrow> 's world" where
  "log msg exc_info w =
     (let l = lg w;
          w1 = (if recording l then w\<lparr>lg := l\<lparr>log_record := log_record l @ [msg]\<rparr>\<rparr> else w);
          w2 = (case src l of None \<Rightarrow> w1 | Some s \<Rightarrow> w1\<lparr>replies := replies w1 @ [(s, msg)]\<rparr>)
      in if verbose l = Some True then w2\<lparr>console := console w2 @ [(msg, exc_info)]\<rparr> else w2)"

definition info :: "string \<Rightarrow> 's world \<Rightarrow> 's world" where
  "info msg w = log (INFO, msg) None w"

definition warn :: "string \<Rightarrow> exn option \<Rightarrow> 's world \<Rightarrow> 's world" where
  "warn msg exc_info w = log (WARNING, msg) exc_info w"

definition reply_to_source_enter :: "bool \<Rightarrow> 's option \<Rightarrow> 's world \<Rightarrow> 's world" where
  "reply_to_source_enter v source w =
     w\<lparr>lg := (lg w)\<lparr>cached_verbose := verbose (lg w), verbose := Some v, src := source\<rparr>\<rparr>"

definition reply_to_source_exit :: "'s world \<Rightarrow> 's world" where
  "reply_to_source_exit w =
     w\<lparr>lg := (lg w)\<lparr>verbose := cached_verbose (lg w), src := None, cached_verbose := None\<rparr>\<rparr>"

definition record_enter :: "'s world \<Rightarrow> 's world" where
  "record_enter w = w\<lparr>lg := (lg w)\<lparr>log_record := [], recording := True\<rparr>\<rparr>"

definition record_exit :: "'s world \<Rightarrow> 's world" where
  "record_exit w = w\<lparr>lg := (lg w)\<lparr>recording := False\<rparr>\<rparr>"

subsection \<open>ConfigurationBase\<close>

text \<open>
  \<open>get_template\<close> catches every exception, warns through the plugin's logger and
  returns an empty \<open>CommentedMap\<close>.  \<open>overlay\<close> is the loop
  \<open>for key, value in config_content.items(): formatted_config[key] = value\<close>.  Messages
  are identified by the text passed to \<open>tr\<close>.
\<close>

definition get_template :: "('t, 'f, 'c) env \<Rightarrow> string \<Rightarrow> 's world \<Rightarrow> 'f \<times> 's world" where
  "get_template h path w =
     (case (case open_bundled_file h path of Inl e \<Rightarrow> Inl e | Inr text \<Rightarrow> rt_load h text) of
        Inr doc \<Rightarrow> (doc, w)
      | Inl e \<Rightarrow>
          (commented_map h,
           w\<lparr>console := console w
                @ [((WARNING, ''Template not found, is plugin modified?''), Some e)]\<rparr>))"

fun overlay :: "('t, 'f, 'c) env \<Rightarrow> 'f \<Rightarrow> dict \<Rightarrow> exn + 'f" where
  "overlay h formatted_config [] = Inr formatted_config"
| "overlay h formatted_config ((key, v) # items) =
     (case rt_setitem h formatted_config key v of
        Inl e \<Rightarrow> Inl e
      | Inr formatted_config' \<Rightarrow> overlay h formatted_config' items)"

definition validation_warning :: string where
  "validation_warning = ''Attempting saving config with original file format due to validation failure while attempting saving config and keep local config file format''"

definition format_warning :: string where
  "format_warning = ''There may be mistakes in original config file format, please contact plugin maintainer''"

definition safe_dump_warning :: string where
  "safe_dump_warning = ''Validation during config file saving failed, saved without original format''"

text \<open>
  \<open>save\<close>.  \<open>save_inner\<close> is the nested function \<open>_save\<close>; its body runs inside
  \<open>reply_to_source_context\<close>, whose \<open>finally\<close> clause also runs when the body raises.
  \<open>formatted_document\<close> is the merge base (the existing file or the template),
  \<open>check_text\<close> the expression \<open>self.deserialize(self.__safe_yaml.load(...))\<close> and
  \<open>validate\<close> that expression applied to the temporary file.  Only \<open>TypeError\<close> and
  \<open>ValueError\<close> from the validation lead to the recursive call with
  \<open>safe_dump=True\<close>; that call takes the first branch, which contains no further call.
\<close>

definition formatted_document ::
  "('t, 'f, 'c) env \<Rightarrow> 'c configuration \<Rightarrow> 's world \<Rightarrow> exn + ('f \<times> 's world)" where
  "formatted_document h self w =
     (case files w (file_path self) of
        Some (File text) \<Rightarrow>
          (case rt_load h (lf text) of Inl e \<Rightarrow> Inl e | Inr doc \<Rightarrow> Inr (doc, w))
      | _ \<Rightarrow> Inr (get_template h (bundled_template_path self) w))"

definition check_text :: "('t, 'f, 'c) env \<Rightarrow> string \<Rightarrow> exn + 'c" where
  "check_text h text =
     (case safe_load h text of Inl e \<Rightarrow> Inl e | Inr data \<Rightarrow> cls_deserialize h data)"

definition validate :: "('t, 'f, 'c) env \<Rightarrow> string \<Rightarrow> 's world \<Rightarrow> exn + 'c" where
  "validate h temp w =
     (case lf_read temp w of Inl e \<Rightarrow> Inl e | Inr text \<Rightarrow> check_text h text)"

function save_inner ::
  "('t, 'f, 'c) env \<Rightarrow> 'c configuration \<Rightarrow> bool \<Rightarrow> 's option \<Rightarrow> bool \<Rightarrow> 's world \<Rightarrow>
   exn option \<times> 's world" where
  "save_inner h self print_to_console source_to_reply safe w0 =
     (let temp = config_temp_path (file_path self);
          w1 = reply_to_source_enter print_to_console source_to_reply w0;
          w2 = (if files w1 temp \<noteq> None then delete temp w1 else w1);
          config_content = serialize h (inst self);
          (r, w') =
            (if safe then
               (case safe_write (file_path self) (safe_dump h (VDict config_content)) w2 of
                  (Some e, w3) \<Rightarrow> (Some e, w3)
                | (None, w3) \<Rightarrow> (None, warn safe_dump_warning None w3))
             else
               (case formatted_document h self w2 of
                  Inl e \<Rightarrow> (Some e, w2)
                | Inr (formatted_config, w3) \<Rightarrow>
                    (case overlay h formatted_config config_content of
                       Inl e \<Rightarrow> (Some e, w3)
                     | Inr formatted_config' \<Rightarrow>
                         (case safe_write temp (rt_dump h formatted_config') w3 of
                            (Some e, w4) \<Rightarrow> (Some e, w4)
                          | (None, w4) \<Rightarrow>
                              (case validate h temp w4 of
                                 Inl e \<Rightarrow>
                                   if e = TypeError \<or> e = ValueError then
                                     save_inner h self print_to_console source_to_reply True
                                       (warn format_warning None
                                          (warn validation_warning (Some e) w4))
                                   else (Some e, w4)
                               | Inr checked \<Rightarrow> os_replace temp (file_path self) w4)))))
      in (r, reply_to_source_exit w'))"
  by pat_completeness auto
termination
  by (relation "measure (\<lambda>(h, self, p, s, safe, w). if safe then 0 else 1)") auto

definition save ::
  "('t, 'f, 'c) env \<Rightarrow> 'c configuration \<Rightarrow> bool \<Rightarrow> 's option \<Rightarrow> 's world \<Rightarrow>
   exn option \<times> 's world" where
  "save h self print_to_console source_to_reply w =
     (let w1 = (if files w (file_path self) = Some Dir
                then set_files ((files w)(file_path self := None)) w else w)
      in save_inner h self print_to_console source_to_reply False w1)"

text \<open>
  \<open>load\<close>.  The first \<open>try\<close> catches every exception of reading and parsing; the call
  of \<open>_fix_data\<close> is in its \<open>else\<close> clause and is not covered by a handler.  The second
  \<open>try\<close> catches every exception of \<open>cls.deserialize\<close>.  \<open>after_load\<close> does
  nothing in the base class.
\<close>

definition read_failed_warning :: string where
  "read_failed_warning = ''Fail to read config file, using default config''"

definition fixed_keys_warning :: string where
  "fixed_keys_warning =
     ''Fixed invalid config keys with default values, please confirm these values: ''"

definition load ::
  "('t, 'f, 'c) env \<Rightarrow> string \<Rightarrow> string \<Rightarrow> bool \<Rightarrow> bool \<Rightarrow> 's option \<Rightarrow> 's world \<Rightarrow>
   (exn + 'c configuration) \<times> 's world" where
  "load h path bundled in_data_folder print_to_console source_to_reply w0 =
     (let w1 = reply_to_source_enter print_to_console source_to_reply
                 (record_enter (w0\<lparr>lg := new_logger\<rparr>));
          default_config = default_data (schema h);
          path = (if in_data_folder then path_join (data_folder h) path else path);
          (r, w') =
            (case (case (case lf_read path w1 of
                           Inl e \<Rightarrow> Inl e
                         | Inr string \<Rightarrow> safe_load h string) of
                     Inl e \<Rightarrow>
                       Inr (default_config, True,
                            warn read_failed_warning (Some e) (delete path w1))
                   | Inr read_data \<Rightarrow>
                       (case fix_data (host h) (schema h) read_data [] of
                          Inl e \<Rightarrow> Inl e
                        | Inr (result_config, nodes_require_save) \<Rightarrow>
                            if length nodes_require_save > 0
                            then Inr (result_config, True,
                                      warn (intercalate '', '' nodes_require_save) None
                                        (warn fixed_keys_warning None w1))
                            else Inr (result_config, False, w1))) of
               Inl e \<Rightarrow> (Inl e, w1)
             | Inr (result_config, needs_save, w2) \<Rightarrow>
                 (let (result, needs_save, w3) =
                        (case cls_deserialize h (VDict result_config) of
                           Inr c \<Rightarrow> (c, needs_save, w2)
                         | Inl e \<Rightarrow> (get_default h, True,
                                     warn read_failed_warning (Some e) w2));
                      self = \<lparr>inst = result, file_path = path, bundled_template_path = bundled\<rparr>
                  in if needs_save then
                       (case save h self print_to_console source_to_reply w3 of
                          (Some e, w4) \<Rightarrow> (Inl e, w4)
                        | (None, w4) \<Rightarrow> (Inr self, info ''Config loaded'' w4))
                     else (Inr self, info ''Config loaded'' w3)))
      in (r, record_exit (reply_to_source_exit w')))"

subsection \<open>A configuration class for concrete runs\<close>

text \<open>
  A class with the single field \<open>a: int = 5\<close>, an instance being its attribute
  dictionary, and YAML functions given by a table of the documents that occur in the
  examples (the empty document loads as \<open>None\<close>).  Python does not check an assigned
  attribute against its annotation, so an instance may hold \<open>a = 'x'\<close>, which
  \<open>deserialize\<close> rejects.
\<close>

definition demo_text :: "val \<Rightarrow> string" where
  "demo_text v =
     (if v = VDict [(''a'', VInt 1)] then ''a: 1''
      else if v = VDict [(''a'', VInt 5)] then ''a: 5''
      else if v = VDict [(''a'', VStr ''x'')] then ''a: x''
      else ''{}'')"

definition demo_parse :: "string \<Rightarrow> exn + val" where
  "demo_parse s =
     (if s = [] then Inr VNone
      else if s = ''a: 1'' then Inr (VDict [(''a'', VInt 1)])
      else if s = ''a: 5'' then Inr (VDict [(''a'', VInt 5)])
      else if s = ''a: x'' then Inr (VDict [(''a'', VStr ''x'')])
      else if s = ''{}'' then Inr (VDict [])
      else Inl OtherError)"

definition demo_deserialize :: "val \<Rightarrow> exn + dict" where
  "demo_deserialize v =
     (case v of
        VDict d \<Rightarrow>
          (case map_of d ''a'' of
             None \<Rightarrow> Inr [(''a'', VInt 5)]
           | Some (VInt i) \<Rightarrow> Inr [(''a'', VInt i)]
           | Some other \<Rightarrow> Inl TypeError)
      | other \<Rightarrow> Inl TypeError)"

definition demo_setitem :: "val \<Rightarrow> string \<Rightarrow> val \<Rightarrow> exn + val" where
  "demo_setitem doc key v =
     (case doc of VDict d \<Rightarrow> Inr (VDict (AList.update key v d)) | other \<Rightarrow> Inl TypeError)"

definition demo_env :: "(ptype, val, dict) env" where
  "demo_env = \<lparr>
     host = py_host,
     schema = Cls [(''a'', Plain PInt)] [(''a'', VInt 5)],
     cls_deserialize = demo_deserialize,
     get_default = [(''a'', VInt 5)],
     serialize = (\<lambda>c. c),
     safe_load = demo_parse,
     safe_dump = demo_text,
     rt_load = demo_parse,
     rt_dump = demo_text,
     rt_setitem = demo_setitem,
     commented_map = VDict [],
     open_bundled_file = (\<lambda>path. Inr ''a: 5''),
     data_folder = ''config/my_plugin''\<rparr>"

definition no_files :: fs where
  "no_files = Map.empty"

definition one_file :: "string \<Rightarrow> string \<Rightarrow> fs" where
  "one_file path body = Map.empty(path \<mapsto> File body)"

definition entry_at :: "string \<Rightarrow> fs \<Rightarrow> node option" where
  "entry_at path st = st path"

definition demo_world :: "fs \<Rightarrow> nat world" where
  "demo_world f = \<lparr>files = f, fs_trace = [], lg = new_logger, console = [], replies = []\<rparr>"


section \<open>Notions used in the statements\<close>

text \<open>
  \<open>under father_nodes p\<close> is the node name of \<open>p\<close> below \<open>father_nodes\<close>;
  \<open>lift_paths\<close> applies it to a result of \<open>_fix_data\<close>.
\<close>

definition under :: "string list \<Rightarrow> string \<Rightarrow> string" where
  "under father_nodes p = intercalate ''.'' (father_nodes @ [p])"

definition lift_paths ::
  "string list \<Rightarrow> exn + ('a \<times> string list) \<Rightarrow> exn + ('a \<times> string list)" where
  "lift_paths fs r = (case r of Inl e \<Rightarrow> Inl e | Inr (F, l) \<Rightarrow> Inr (F, map (under fs) l))"

text \<open>
  The replacement value the specification prescribes after a failed coercion: the default,
  passed once more through the target type's constructor, and the literal default if that
  fails.
\<close>

definition spec_default_value :: "'t host \<Rightarrow> 't \<Rightarrow> val \<Rightarrow> val" where
  "spec_default_value h target_type dv =
     (case construct h target_type dv of Some v \<Rightarrow> v | None \<Rightarrow> dv)"

text \<open>
  Relations between a world and a later one, over the states added to \<open>fs_trace\<close>:
  \<open>untouched p\<close> when the entry at \<open>p\<close> is the same in every new state, \<open>lands p\<close>
  when in every new state it is the entry of the first or of the last world.
  \<open>emitted\<close> describes what a run adds to the three sinks of the logger.
\<close>

definition steps_ok :: "(fs \<Rightarrow> bool) \<Rightarrow> 's world \<Rightarrow> 's world \<Rightarrow> bool" where
  "steps_ok P w w' = (\<exists>xs. fs_trace w' = fs_trace w @ xs \<and> (\<forall>s \<in> set xs. P s))"

definition untouched :: "string \<Rightarrow> 's world \<Rightarrow> 's world \<Rightarrow> bool" where
  "untouched p w w' = (files w' p = files w p \<and> steps_ok (\<lambda>s. s p = files w p) w w')"

definition lands :: "string \<Rightarrow> 's world \<Rightarrow> 's world \<Rightarrow> bool" where
  "lands p w w' = steps_ok (\<lambda>s. s p = files w p \<or> s p = files w' p) w w'"

definition emitted ::
  "bool \<Rightarrow> 's option \<Rightarrow> (message \<times> exn option) list \<Rightarrow> 's world \<Rightarrow> 's world \<Rightarrow> bool" where
  "emitted print_to_console source ls w w' =
     (log_record (lg w') = log_record (lg w) @ (if recording (lg w) then map fst ls else [])
      \<and> recording (lg w') = recording (lg w)
      \<and> replies w' = replies w @ (case source of None \<Rightarrow> [] | Some s \<Rightarrow> map (\<lambda>l. (s, fst l)) ls)
      \<and> console w' = console w @ (if print_to_console then ls else []))"

text \<open>
  An instance of the example class at \<open>config.yml\<close>, and a host whose round-trip dumper
  emits a tag that the safe loader rejects with a parser error.
\<close>

definition demo_config :: "dict \<Rightarrow> dict configuration" where
  "demo_config attrs = \<lparr>inst = attrs, file_path = ''config.yml'',
                         bundled_template_path = ''resources/default_cfg.yml''\<rparr>"

definition tagged_env :: "(ptype, val, dict) env" where
  "tagged_env = demo_env\<lparr>rt_dump := (\<lambda>doc. ''a: !tag 5'')\<rparr>"

text \<open>
  Conditions under which a reconciled document is stable: the coercion accepts what it
  returns and what the constructors build (\<open>coercion_stable\<close>), field names are distinct
  and every default is accepted by its field, a nested default reconciling without
  repairs (\<open>defaults_stable\<close>).
\<close>

definition accepts :: "'t host \<Rightarrow> 't \<Rightarrow> val \<Rightarrow> bool" where
  "accepts h target_type v = (case deserialize h v target_type of Inr v' \<Rightarrow> True | Inl e \<Rightarrow> False)"

definition quiet :: "exn + (dict \<times> string list) \<Rightarrow> bool" where
  "quiet r = (case r of Inr (fixed, repair_log) \<Rightarrow> repair_log = [] | Inl e \<Rightarrow> False)"

fun defaults_stable :: "'t host \<Rightarrow> 't cls \<Rightarrow> bool"
and fields_stable :: "'t host \<Rightarrow> dict \<Rightarrow> (string \<times> 't ftype) list \<Rightarrow> bool" where
  "defaults_stable h (Cls anns dflt) = (distinct (map fst anns) \<and> fields_stable h dflt anns)"
| "fields_stable h dflt [] = True"
| "fields_stable h dflt ((key, ty) # rest) =
     ((case ty of
         Plain t \<Rightarrow>
           (case map_of dflt key of None \<Rightarrow> True | Some dv \<Rightarrow> accepts h t dv)
       | Blossom c \<Rightarrow>
           defaults_stable h c
           \<and> (case map_of dflt key of None \<Rightarrow> True | Some dv \<Rightarrow> quiet (fix_data h c dv [])))
      \<and> fields_stable h dflt rest)"

definition coercion_stable :: "'t host \<Rightarrow> bool" where
  "coercion_stable h =
     ((\<forall>t v v'. deserialize h v t = Inr v' \<longrightarrow> accepts h t v')
      \<and> (\<forall>t v v'. construct h t v = Some v' \<longrightarrow> accepts h t v'))"

section \<open>Properties of the translation helpers\<close>

lemma startswith_append: "startswith (p @ s) p"
  by (simp add: startswith_def)

lemma caught_KeyError: "caught KeyError"
  by (simp add: caught_def)

lemma ntr_with_language:
  assumes first: "tr psi key (Some lang) = Inl e" "caught e"
    and second: "get_mcdr_language psi = ''en_us'' \<or>
                 (\<exists>e2. tr psi key (Some ''en_us'') = Inl e2 \<and> caught e2)"
  shows "\<exists>line. ntr psi key (Some lang) None True fallback log_flag errors =
           (Inr (case fallback of None \<Rightarrow> Str key | Some d \<Rightarrow> d),
            if log_flag then errors @ [line] else errors)"
proof -
  have j: "\<exists>s. join_optional '', ''
            (append_new [] [Some lang, Some (get_mcdr_language psi), Some ''en_us'']) = Inr s"
    by (simp add: join_optional_def split: option.splits)
  then obtain s where s: "join_optional '', ''
            (append_new [] [Some lang, Some (get_mcdr_language psi), Some ''en_us'']) = Inr s"
    by blast
  from second show ?thesis
  proof
    assume "get_mcdr_language psi = ''en_us''"
    with first s show ?thesis
      by (simp add: ntr_def Let_def caught_KeyError del: append_new.simps)
  next
    assume "\<exists>e2. tr psi key (Some ''en_us'') = Inl e2 \<and> caught e2"
    then obtain e2 where "tr psi key (Some ''en_us'') = Inl e2" "caught e2" by blast
    with first s show ?thesis
      by (cases "get_mcdr_language psi = ''en_us''")
         (simp_all add: ntr_def Let_def caught_KeyError del: append_new.simps)
  qed
qed

text \<open>
  C9.  With both lookups failing and failure allowed, \<open>ntr\<close> is claimed to return the key
  and not to raise.  Called without a language (both \<open>language\<close> and \<open>_mcdr_tr_language\<close>
  left at their default \<open>None\<close>), the list of tried languages starts with \<open>None\<close>, its
  \<open>', '.join\<close> raises \<open>TypeError\<close> inside the handler, and \<open>ntr\<close> raises instead of
  returning the key; nothing is logged.
\<close>

theorem ntr_without_language_raises:
  "ntr \<lparr>tr = (\<lambda>key language. Inl KeyError), get_mcdr_language = ''zh_cn''\<rparr>
       ''my_plugin.missing'' None None True None True [] = (Inl TypeError, [])"
  by (simp add: ntr_def caught_def join_optional_def)

text \<open>
  C10.  Prefixing is idempotent: \<open>rtr\<close> and \<open>ktr\<close> prepend the prefix exactly when the key
  does not start with it, the key they produce is a fixed point of the prefixing, and a
  key that already carries the prefix is passed through unchanged.
\<close>

theorem prefixing_idempotent:
  "translation_key (ktr key d l pre kw) = (if startswith key pre then key else pre @ key)
   \<and> translation_key (rtr pid key True kw) =
       (if startswith key (TRANSLATION_KEY_PREFIX pid) then key
        else TRANSLATION_KEY_PREFIX pid @ key)
   \<and> translation_key (ktr (translation_key (ktr key d l pre kw)) d' l' pre kw') =
       translation_key (ktr key d l pre kw)
   \<and> translation_key (rtr pid (translation_key (rtr pid key w kw)) w kw') =
       translation_key (rtr pid key w kw)
   \<and> translation_key (ktr (pre @ rest) d l pre kw) = pre @ rest
   \<and> translation_key (rtr pid (TRANSLATION_KEY_PREFIX pid @ rest) w kw) =
       TRANSLATION_KEY_PREFIX pid @ rest"
  by (simp add: ktr_def rtr_def startswith_append)


section \<open>Properties of the reconciler\<close>

text \<open>
  The loop, one field at a time.
\<close>

lemma fix_loop_step:
  "fix_loop h ((key, ty) # rest) dflt (VDict d) fs fixed ns =
     (case field_result h dflt d fs key ty of
        Inl e \<Rightarrow> Inl e
      | Inr (vo, ps) \<Rightarrow> fix_loop h rest dflt (VDict d) fs (store key vo fixed) (ns @ ps))"
  by (simp add: field_result_def store_def Let_def
           split: option.splits ftype.splits sum.splits prod.splits)

lemma fix_loop_not_dict:
  "\<forall>d. data \<noteq> VDict d \<Longrightarrow> fix_loop h (a # rest) dflt data fs fixed ns = Inl AttributeError"
  by (cases a; cases data) simp_all

declare fix_loop.simps(2) [simp del]

lemma map_of_store:
  "map_of (store key vo fixed) k =
     (if k = key then (case vo of None \<Rightarrow> map_of fixed k | Some v \<Rightarrow> Some v) else map_of fixed k)"
  by (simp add: store_def update_conv' split: option.splits)

lemma fix_loop_acc:
  "fix_loop h anns dflt data fs fixed ns =
     (case fix_loop h anns dflt data fs fixed [] of
        Inl e \<Rightarrow> Inl e
      | Inr (F, l) \<Rightarrow> Inr (F, ns @ l))"
proof (induction anns arbitrary: fixed ns)
  case Nil
  show ?case by simp
next
  case (Cons a anns)
  obtain key ty where a: "a = (key, ty)" by (cases a)
  show ?case
  proof (cases "\<exists>d. data = VDict d")
    case False
    then show ?thesis by (simp add: fix_loop_not_dict)
  next
    case True
    then obtain d where d: "data = VDict d" by blast
    show ?thesis
    proof (cases "field_result h dflt d fs key ty")
      case (Inl e)
      then show ?thesis by (simp add: a d fix_loop_step)
    next
      case (Inr r)
      obtain vo ps where r: "r = (vo, ps)" by (cases r)
      have l: "fix_loop h (a # anns) dflt data fs fixed ns =
                 fix_loop h anns dflt data fs (store key vo fixed) (ns @ ps)"
        by (simp add: a d fix_loop_step Inr r)
      have e: "fix_loop h (a # anns) dflt data fs fixed [] =
                 fix_loop h anns dflt data fs (store key vo fixed) ps"
        by (simp add: a d fix_loop_step Inr r)
      have A: "fix_loop h anns dflt data fs (store key vo fixed) (ns @ ps) =
                 (case fix_loop h anns dflt data fs (store key vo fixed) [] of
                    Inl e \<Rightarrow> Inl e | Inr (F, l) \<Rightarrow> Inr (F, (ns @ ps) @ l))"
        by (rule Cons.IH)
      have B: "fix_loop h anns dflt data fs (store key vo fixed) ps =
                 (case fix_loop h anns dflt data fs (store key vo fixed) [] of
                    Inl e \<Rightarrow> Inl e | Inr (F, l) \<Rightarrow> Inr (F, ps @ l))"
        by (rule Cons.IH)
      show ?thesis
        unfolding l e by (simp add: A B split: sum.splits prod.splits)
    qed
  qed
qed

lemma fix_loop_log_extends:
  assumes "fix_loop h anns dflt data fs fixed ns = Inr (F, L)"
  shows "\<exists>l. L = ns @ l"
  using assms by (subst (asm) fix_loop_acc) (auto split: sum.splits prod.splits)

lemma fix_loop_keeps_other:
  "fix_loop h anns dflt data fs fixed ns = Inr (F, L) \<Longrightarrow> key \<notin> fst ` set anns \<Longrightarrow>
   map_of F key = map_of fixed key"
proof (induction anns arbitrary: fixed ns)
  case Nil
  then show ?case by simp
next
  case (Cons a anns)
  obtain k ty where a: "a = (k, ty)" by (cases a)
  from Cons.prems(1) obtain d where d: "data = VDict d"
    by (cases "\<exists>d. data = VDict d") (auto simp: fix_loop_not_dict)
  from Cons.prems(1) obtain vo ps where
    r: "field_result h dflt d fs k ty = Inr (vo, ps)" and
    rest: "fix_loop h anns dflt data fs (store k vo fixed) (ns @ ps) = Inr (F, L)"
    by (auto simp: a d fix_loop_step split: sum.splits prod.splits)
  from Cons.prems(2) have "key \<noteq> k" "key \<notin> fst ` set anns" by (auto simp: a)
  with Cons.IH[OF rest] show ?case by (simp add: map_of_store)
qed

lemma fix_loop_dom_mono:
  "fix_loop h anns dflt data fs fixed ns = Inr (F, L) \<Longrightarrow> map_of fixed key \<noteq> None \<Longrightarrow>
   map_of F key \<noteq> None"
proof (induction anns arbitrary: fixed ns)
  case Nil
  then show ?case by simp
next
  case (Cons a anns)
  obtain k ty where a: "a = (k, ty)" by (cases a)
  from Cons.prems(1) obtain d where d: "data = VDict d"
    by (cases "\<exists>d. data = VDict d") (auto simp: fix_loop_not_dict)
  from Cons.prems(1) obtain vo ps where
    r: "field_result h dflt d fs k ty = Inr (vo, ps)" and
    rest: "fix_loop h anns dflt data fs (store k vo fixed) (ns @ ps) = Inr (F, L)"
    by (auto simp: a d fix_loop_step split: sum.splits prod.splits)
  from Cons.prems(2) have "map_of (store k vo fixed) key \<noteq> None"
    by (auto simp: map_of_store split: option.splits)
  with Cons.IH[OF rest] show ?case by simp
qed

lemma fix_loop_field:
  "fix_loop h anns dflt (VDict d) fs fixed ns = Inr (F, L) \<Longrightarrow> (key, ty) \<in> set anns \<Longrightarrow>
   \<exists>vo ps. field_result h dflt d fs key ty = Inr (vo, ps) \<and> set ps \<subseteq> set L
     \<and> (vo \<noteq> None \<longrightarrow> map_of F key \<noteq> None)
     \<and> (distinct (map fst anns) \<longrightarrow> map_of F key = map_of (store key vo fixed) key)"
proof (induction anns arbitrary: fixed ns)
  case Nil
  then show ?case by simp
next
  case (Cons a anns)
  obtain k t where a: "a = (k, t)" by (cases a)
  from Cons.prems(1) obtain vo ps where
    r: "field_result h dflt d fs k t = Inr (vo, ps)" and
    rest: "fix_loop h anns dflt (VDict d) fs (store k vo fixed) (ns @ ps) = Inr (F, L)"
    by (auto simp: a fix_loop_step split: sum.splits prod.splits)
  show ?case
  proof (cases "(key, ty) = (k, t)")
    case True
    from fix_loop_log_extends[OF rest] have ps: "set ps \<subseteq> set L" by auto
    have dom: "vo \<noteq> None \<longrightarrow> map_of F key \<noteq> None"
      using fix_loop_dom_mono[OF rest, of key] True
      by (auto simp: map_of_store)
    have val: "distinct (map fst (a # anns)) \<longrightarrow> map_of F key = map_of (store key vo fixed) key"
      using fix_loop_keeps_other[OF rest, of key] True by (auto simp: a)
    from r ps dom val True show ?thesis by auto
  next
    case False
    with Cons.prems(2) have mem: "(key, ty) \<in> set anns" by (auto simp: a)
    from Cons.IH[OF rest mem] obtain vo' ps' where
      f: "field_result h dflt d fs key ty = Inr (vo', ps')" "set ps' \<subseteq> set L"
         "vo' \<noteq> None \<longrightarrow> map_of F key \<noteq> None"
         "distinct (map fst anns) \<longrightarrow> map_of F key = map_of (store key vo' (store k vo fixed)) key"
      by blast
    have "distinct (map fst (a # anns)) \<longrightarrow> key \<noteq> k"
      using mem by (auto simp: a image_iff)
    with f show ?thesis by (auto simp: map_of_store a split: option.splits)
  qed
qed

lemma fix_loop_absent_default:
  "fix_loop h anns dflt (VDict d) fs fixed ns = Inr (F, L) \<Longrightarrow> map_of d key = None \<Longrightarrow>
   map_of dflt key = Some dv \<Longrightarrow> map_of fixed key = Some dv \<or> key \<in> fst ` set anns \<Longrightarrow>
   map_of F key = Some dv"
proof (induction anns arbitrary: fixed ns)
  case Nil
  then show ?case by simp
next
  case (Cons a anns)
  obtain k t where a: "a = (k, t)" by (cases a)
  from Cons.prems(1) obtain vo ps where
    r: "field_result h dflt d fs k t = Inr (vo, ps)" and
    rest: "fix_loop h anns dflt (VDict d) fs (store k vo fixed) (ns @ ps) = Inr (F, L)"
    by (auto simp: a fix_loop_step split: sum.splits prod.splits)
  have "map_of (store k vo fixed) key = Some dv \<or> key \<in> fst ` set anns"
  proof (cases "key = k")
    case True
    with r Cons.prems(2,3) have "vo = Some dv"
      by (simp add: field_result_def)
    with True show ?thesis by (simp add: map_of_store)
  next
    case False
    with Cons.prems(4) show ?thesis by (auto simp: map_of_store a)
  qed
  from Cons.IH[OF rest Cons.prems(2,3) this] show ?case .
qed


lemma under_Nil: "under [] p = p"
  by (simp add: under_def)

lemma intercalate_last_two:
  "intercalate sep (fs @ [x, y]) = intercalate sep (fs @ [x @ sep @ y])"
proof (induction fs rule: intercalate.induct[of _ sep])
  case 1
  show ?case by simp
next
  case (2 a)
  show ?case by simp
next
  case (3 a b bs)
  then show ?case by simp
qed

lemma under_under: "under fs (under [key] p) = under (fs @ [key]) p"
  by (simp add: under_def intercalate_last_two)

lemma lift_paths_simps:
  "lift_paths fs (Inl e) = Inl e"
  "lift_paths fs (Inr (F, l)) = Inr (F, map (under fs) l)"
  by (simp_all add: lift_paths_def)

lemma lift_paths_Nil: "lift_paths [] r = r"
  by (auto simp: lift_paths_def under_Nil map_idI split: sum.splits)

lemma field_result_father:
  assumes nested: "\<And>c v fs. ty = Blossom c \<Longrightarrow>
                     fix_data h c v fs = lift_paths fs (fix_data h c v [])"
  shows "field_result h dflt d fs key ty = lift_paths fs (field_result h dflt d [] key ty)"
proof (cases ty)
  case (Plain t)
  then show ?thesis
    by (simp add: field_result_def lift_paths_def under_def Let_def
             split: option.splits sum.splits)
next
  case (Blossom c)
  show ?thesis
  proof (cases "map_of d key")
    case None
    then show ?thesis
      by (simp add: field_result_def lift_paths_def under_def Let_def split: option.splits)
  next
    case (Some v)
    have a: "fix_data h c v (fs @ [key]) = lift_paths (fs @ [key]) (fix_data h c v [])"
      by (rule nested[OF Blossom])
    have b: "fix_data h c v [key] = lift_paths [key] (fix_data h c v [])"
      by (rule nested[OF Blossom])
    show ?thesis
      by (cases "fix_data h c v []")
         (auto simp: field_result_def Blossom Some a b lift_paths_simps under_under)
  qed
qed

lemma fix_loop_father:
  assumes nested: "\<And>key c v fs. (key, Blossom c) \<in> set anns \<Longrightarrow>
                     fix_data h c v fs = lift_paths fs (fix_data h c v [])"
  shows "fix_loop h anns dflt data fs fixed [] =
           lift_paths fs (fix_loop h anns dflt data [] fixed [])"
  using nested
proof (induction anns arbitrary: fixed)
  case Nil
  show ?case by (simp add: lift_paths_simps)
next
  case (Cons a anns)
  obtain key ty where a: "a = (key, ty)" by (cases a)
  show ?case
  proof (cases "\<exists>d. data = VDict d")
    case False
    then show ?thesis by (simp add: fix_loop_not_dict lift_paths_simps)
  next
    case True
    then obtain d where d: "data = VDict d" by blast
    have f: "field_result h dflt d fs key ty = lift_paths fs (field_result h dflt d [] key ty)"
    proof (rule field_result_father)
      fix c v fs'
      assume "ty = Blossom c"
      then have "(key, Blossom c) \<in> set (a # anns)" by (simp add: a)
      then show "fix_data h c v fs' = lift_paths fs' (fix_data h c v [])"
        by (rule Cons.prems)
    qed
    show ?thesis
    proof (cases "field_result h dflt d [] key ty")
      case (Inl e)
      then show ?thesis by (simp add: a d fix_loop_step f lift_paths_simps)
    next
      case (Inr r)
      obtain vo ps where r: "r = (vo, ps)" by (cases r)
      have ih: "fix_loop h anns dflt data fs (store key vo fixed) [] =
                  lift_paths fs (fix_loop h anns dflt data [] (store key vo fixed) [])"
      proof (rule Cons.IH)
        fix k c v fs'
        assume "(k, Blossom c) \<in> set anns"
        then have "(k, Blossom c) \<in> set (a # anns)" by simp
        then show "fix_data h c v fs' = lift_paths fs' (fix_data h c v [])"
          by (rule Cons.prems)
      qed
      have l: "fix_loop h (a # anns) dflt data fs fixed [] =
                 fix_loop h anns dflt data fs (store key vo fixed) (map (under fs) ps)"
        by (simp add: a d fix_loop_step f Inr r lift_paths_simps)
      have e: "fix_loop h (a # anns) dflt data [] fixed [] =
                 fix_loop h anns dflt data [] (store key vo fixed) ps"
        by (simp add: a d fix_loop_step Inr r)
      show ?thesis
        unfolding l e
        by (subst fix_loop_acc, subst (2) fix_loop_acc)
           (auto simp: ih lift_paths_def split: sum.splits)
    qed
  qed
qed

lemma fix_data_father_nodes_all:
  "\<forall>data fs. fix_data h c data fs = lift_paths fs (fix_data h c data [])"
proof (rule cls.induct[of
    "\<lambda>ty. \<forall>c'. ty = Blossom c' \<longrightarrow>
           (\<forall>data fs. fix_data h c' data fs = lift_paths fs (fix_data h c' data []))"
    "\<lambda>c. \<forall>data fs. fix_data h c data fs = lift_paths fs (fix_data h c data [])" c])
  fix t :: 'a
  show "\<forall>c'. Plain t = Blossom c' \<longrightarrow>
          (\<forall>data fs. fix_data h c' data fs = lift_paths fs (fix_data h c' data []))"
    by simp
next
  fix c :: "'a cls"
  assume "\<forall>data fs. fix_data h c data fs = lift_paths fs (fix_data h c data [])"
  then show "\<forall>c'. Blossom c = Blossom c' \<longrightarrow>
          (\<forall>data fs. fix_data h c' data fs = lift_paths fs (fix_data h c' data []))"
    by blast
next
  fix anns :: "(string \<times> 'a ftype) list" and dflt
  assume IH: "\<And>a ty. a \<in> set anns \<Longrightarrow> ty \<in> Basic_BNFs.snds a \<Longrightarrow>
            \<forall>c'. ty = Blossom c' \<longrightarrow>
              (\<forall>data fs. fix_data h c' data fs = lift_paths fs (fix_data h c' data []))"
  have "fix_loop h anns dflt data fs [] [] = lift_paths fs (fix_loop h anns dflt data [] [] [])"
    for data fs
  proof (rule fix_loop_father)
    fix key c v fs
    assume m: "(key, Blossom c) \<in> set anns"
    have "Blossom c \<in> Basic_BNFs.snds (key, Blossom c)" by simp
    from IH[OF m this] show "fix_data h c v fs = lift_paths fs (fix_data h c v [])"
      by blast
  qed
  then show "\<forall>data fs. fix_data h (Cls anns dflt) data fs =
               lift_paths fs (fix_data h (Cls anns dflt) data [])"
    unfolding fix_data.simps by blast
qed

lemma fix_data_father_nodes:
  "fix_data h c data fs = lift_paths fs (fix_data h c data [])"
  using fix_data_father_nodes_all by blast

lemmas fix_eval = fix_loop_step field_result_def store_def py_host_def Let_def
  isinstance_Serializable_def

text \<open>
  What a returning run guarantees, whatever the host coercion does: a schema field that
  has an entry in the default-serialization and is absent from the raw document, or whose
  present value fails the coercion that is attempted on it, is present in the reconciled
  output and its dotted node path is in the RepairLog; an absent field receives exactly
  the default.
\<close>

lemma repairs_recorded_when_returning:
  assumes run: "fix_data h (Cls anns dflt) (VDict d) fs = Inr (fixed, repair_log)"
    and field: "(key, ty) \<in> set anns"
    and dflt: "map_of dflt key = Some dv"
    and broken: "map_of d key = None \<or>
                 (\<exists>t v e. ty = Plain t \<and> map_of d key = Some v \<and> deserialize h v t = Inl e)"
  shows "map_of fixed key \<noteq> None
         \<and> intercalate ''.'' (fs @ [key]) \<in> set repair_log
         \<and> (map_of d key = None \<longrightarrow> map_of fixed key = Some dv)"
proof -
  from run have loop: "fix_loop h anns dflt (VDict d) fs [] [] = Inr (fixed, repair_log)"
    by simp
  from fix_loop_field[OF loop field] obtain vo ps where
    r: "field_result h dflt d fs key ty = Inr (vo, ps)" and
    ps: "set ps \<subseteq> set repair_log" and
    vo: "vo \<noteq> None \<longrightarrow> map_of fixed key \<noteq> None"
    by blast
  from r broken have "vo \<noteq> None \<and> ps = [intercalate ''.'' (fs @ [key])]"
    by (auto simp: field_result_def Let_def dflt split: if_splits)
  with ps vo have "map_of fixed key \<noteq> None \<and> intercalate ''.'' (fs @ [key]) \<in> set repair_log"
    by auto
  moreover have "map_of d key = None \<longrightarrow> map_of fixed key = Some dv"
  proof
    assume absent: "map_of d key = None"
    from field have "key \<in> fst ` set anns" by force
    then show "map_of fixed key = Some dv"
      using fix_loop_absent_default[OF loop absent dflt] by blast
  qed
  ultimately show ?thesis by blast
qed

text \<open>
  C2.  Every absent or malformed field with a default is to be replaced and recorded, for
  every raw document.  For the document \<open>{sub: 5}\<close> against the fields
  \<open>b: int = 7\<close> and \<open>sub\<close>, a nested schema with \<open>x: int = 0\<close>, the loop
  fills in \<open>b\<close> and then reconciles \<open>sub\<close>, whose value is not a mapping:
  \<open>data.keys()\<close> raises \<open>AttributeError\<close> in the nested call, nothing catches it, and
  \<open>_fix_data\<close> returns neither a reconciled document nor a RepairLog.  Neither the
  absent \<open>b\<close> nor the malformed \<open>sub\<close> is replaced or recorded.
\<close>

theorem nested_non_mapping_aborts_repairs:
  "fix_data py_host
     (Cls [(''b'', Plain PInt),
           (''sub'', Blossom (Cls [(''x'', Plain PInt)] [(''x'', VInt 0)]))]
          [(''b'', VInt 7), (''sub'', VDict [(''x'', VInt 0)])])
     (VDict [(''sub'', VInt 5)]) [] = Inl AttributeError"
  by (simp add: fix_eval fix_loop_not_dict)

text \<open>
  C4.  A field on which coercion is attempted (one that is not itself a nested schema),
  whose present value fails coercion and which has no entry in the default-serialization,
  is absent from the reconciled output, so it is never emitted with a value of the wrong
  type; its node path is recorded.
\<close>

theorem uncoercible_without_default_dropped:
  assumes run: "fix_data h (Cls anns dflt) (VDict d) fs = Inr (fixed, repair_log)"
    and keys: "distinct (map fst anns)"
    and field: "(key, Plain t) \<in> set anns"
    and present: "map_of d key = Some v"
    and fails: "deserialize h v t = Inl e"
    and no_default: "map_of dflt key = None"
  shows "map_of fixed key = None \<and> intercalate ''.'' (fs @ [key]) \<in> set repair_log"
proof -
  from run have loop: "fix_loop h anns dflt (VDict d) fs [] [] = Inr (fixed, repair_log)"
    by simp
  from fix_loop_field[OF loop field] keys obtain vo ps where
    r: "field_result h dflt d fs key (Plain t) = Inr (vo, ps)" and
    ps: "set ps \<subseteq> set repair_log" and
    val: "map_of fixed key = map_of (store key vo []) key"
    by blast
  from r have "vo = None \<and> ps = [intercalate ''.'' (fs @ [key])]"
    by (auto simp: field_result_def Let_def present fails no_default split: if_splits)
  with ps val show ?thesis by (auto simp: map_of_store)
qed

text \<open>
  The document \<open>{a: 'abc'}\<close> against the field \<open>a: int\<close> without default.
\<close>

theorem uncoercible_without_default_dropped_witness:
  "fix_data py_host (Cls [(''a'', Plain PInt)] []) (VDict [(''a'', VStr ''abc'')]) []
     = Inr ([], [''a''])
   \<and> distinct (map fst [(''a'', Plain PInt)])
   \<and> (''a'', Plain PInt) \<in> set [(''a'', Plain PInt)]
   \<and> map_of [(''a'', VStr ''abc'')] ''a'' = Some (VStr ''abc'')
   \<and> deserialize py_host (VStr ''abc'') PInt = Inl TypeError
   \<and> map_of ([] :: dict) ''a'' = None
   \<and> intercalate ''.'' ([] @ [''a'']) \<in> set [''a'']"
proof -
  have run: "fix_data py_host (Cls [(''a'', Plain PInt)] []) (VDict [(''a'', VStr ''abc'')]) []
     = Inr ([], [''a''])"
    by (simp add: fix_eval)
  have keys: "distinct (map fst [(''a'', Plain PInt)])" by simp
  have field: "(''a'', Plain PInt) \<in> set [(''a'', Plain PInt)]" by simp
  have present: "map_of [(''a'', VStr ''abc'')] ''a'' = Some (VStr ''abc'')" by simp
  have fails: "deserialize py_host (VStr ''abc'') PInt = Inl TypeError"
    by (simp add: py_host_def)
  have no_default: "map_of ([] :: dict) ''a'' = None" by simp
  from uncoercible_without_default_dropped[OF run keys field present fails no_default]
    run keys field present fails
  show ?thesis by simp
qed

text \<open>
  C3, as the code has it.  For a field whose present value fails coercion and which has a
  default, the node path is recorded and the stored value is the target type's own
  constructor applied to the present raw value when that call succeeds, and the literal
  default otherwise.  The constructor is never applied to the default.
\<close>

theorem failed_coercion_uses_constructor_then_default:
  assumes run: "fix_data h (Cls anns dflt) (VDict d) fs = Inr (fixed, repair_log)"
    and keys: "distinct (map fst anns)"
    and field: "(key, Plain t) \<in> set anns"
    and present: "map_of d key = Some v"
    and fails: "deserialize h v t = Inl e"
    and dflt: "map_of dflt key = Some dv"
  shows "intercalate ''.'' (fs @ [key]) \<in> set repair_log
         \<and> map_of fixed key = Some (case construct h t v of Some v' \<Rightarrow> v' | None \<Rightarrow> dv)"
proof -
  from run have loop: "fix_loop h anns dflt (VDict d) fs [] [] = Inr (fixed, repair_log)"
    by simp
  from fix_loop_field[OF loop field] keys obtain vo ps where
    r: "field_result h dflt d fs key (Plain t) = Inr (vo, ps)" and
    ps: "set ps \<subseteq> set repair_log" and
    val: "map_of fixed key = map_of (store key vo []) key"
    by blast
  from r
  have "vo = Some (case construct h t v of Some v' \<Rightarrow> v' | None \<Rightarrow> dv)
        \<and> ps = [intercalate ''.'' (fs @ [key])]"
    by (auto simp: field_result_def Let_def isinstance_Serializable_def present fails dflt
             split: if_splits)
  with ps val show ?thesis by (auto simp: map_of_store)
qed

text \<open>
  The document \<open>{a: 'abc'}\<close> against \<open>a: int = 5\<close>: \<open>int('abc')\<close> raises and the
  default is stored.
\<close>

theorem failed_coercion_uses_constructor_then_default_witness:
  "fix_data py_host (Cls [(''a'', Plain PInt)] [(''a'', VInt 5)])
       (VDict [(''a'', VStr ''abc'')]) [] = Inr ([(''a'', VInt 5)], [''a''])
   \<and> distinct (map fst [(''a'', Plain PInt)])
   \<and> (''a'', Plain PInt) \<in> set [(''a'', Plain PInt)]
   \<and> map_of [(''a'', VStr ''abc'')] ''a'' = Some (VStr ''abc'')
   \<and> deserialize py_host (VStr ''abc'') PInt = Inl TypeError
   \<and> map_of [(''a'', VInt 5)] ''a'' = Some (VInt 5)
   \<and> construct py_host PInt (VStr ''abc'') = None
   \<and> intercalate ''.'' ([] @ [''a'']) \<in> set [''a'']"
proof -
  have run: "fix_data py_host (Cls [(''a'', Plain PInt)] [(''a'', VInt 5)])
       (VDict [(''a'', VStr ''abc'')]) [] = Inr ([(''a'', VInt 5)], [''a''])"
    by (simp add: fix_eval int_of_str_def max_str_digits_def strip_def is_space_def is_digit_def)
  have keys: "distinct (map fst [(''a'', Plain PInt)])" by simp
  have field: "(''a'', Plain PInt) \<in> set [(''a'', Plain PInt)]" by simp
  have present: "map_of [(''a'', VStr ''abc'')] ''a'' = Some (VStr ''abc'')" by simp
  have fails: "deserialize py_host (VStr ''abc'') PInt = Inl TypeError"
    by (simp add: py_host_def)
  have dflt: "map_of [(''a'', VInt 5)] ''a'' = Some (VInt 5)" by simp
  have c: "construct py_host PInt (VStr ''abc'') = None"
    by (simp add: py_host_def int_of_str_def max_str_digits_def strip_def is_space_def is_digit_def)
  from failed_coercion_uses_constructor_then_default[OF run keys field present fails dflt]
    run keys field present fails dflt c
  show ?thesis by simp
qed

text \<open>
  C3 as stated fails: for the document \<open>{a: '7'}\<close> against \<open>a: int = 5\<close> the stored value
  is \<open>int('7') = 7\<close>, while the default, also when passed through the constructor, is
  \<open>5\<close>.
\<close>

theorem default_not_used_counterexample:
  "fix_data py_host (Cls [(''a'', Plain PInt)] [(''a'', VInt 5)])
       (VDict [(''a'', VStr ''7'')]) [] = Inr ([(''a'', VInt 7)], [''a''])
   \<and> spec_default_value py_host PInt (VInt 5) = VInt 5"
  by (simp add: fix_eval spec_default_value_def int_of_str_def max_str_digits_def strip_def is_space_def
        is_digit_def digits_value_def)

text \<open>
  C6.  For a nested-schema field that is present in the raw document, every repair path
  of the nested reconciliation (as the nested schema reports it on its own) is recorded in
  the outer RepairLog under its full dotted name: the outer father nodes, the key of the
  field, then the nested path.
\<close>

theorem nested_paths_are_dotted:
  assumes run: "fix_data h (Cls anns dflt) (VDict d) fs = Inr (fixed, repair_log)"
    and field: "(key, Blossom c) \<in> set anns"
    and present: "map_of d key = Some v"
  shows "\<exists>nested rel. fix_data h c v [] = Inr (nested, rel)
           \<and> (\<forall>p \<in> set rel. intercalate ''.'' (fs @ [key, p]) \<in> set repair_log)"
proof -
  from run have loop: "fix_loop h anns dflt (VDict d) fs [] [] = Inr (fixed, repair_log)"
    by simp
  from fix_loop_field[OF loop field] obtain vo ps where
    r: "field_result h dflt d fs key (Blossom c) = Inr (vo, ps)" and
    ps: "set ps \<subseteq> set repair_log"
    by blast
  from r obtain nested where
    n: "fix_data h c v (fs @ [key]) = Inr (nested, ps)"
    by (auto simp: field_result_def Let_def present split: sum.splits)
  have "fix_data h c v (fs @ [key]) = lift_paths (fs @ [key]) (fix_data h c v [])"
    by (rule fix_data_father_nodes)
  with n obtain rel where
    rel: "fix_data h c v [] = Inr (nested, rel)" "ps = map (under (fs @ [key])) rel"
    by (auto simp: lift_paths_def split: sum.splits)
  have "\<forall>p \<in> set rel. intercalate ''.'' (fs @ [key, p]) \<in> set repair_log"
    using ps rel(2) by (auto simp: under_def)
  with rel(1) show ?thesis by blast
qed

text \<open>
  The document \<open>{sub: {x: 'bad'}}\<close> against \<open>sub\<close>, a nested schema with
  \<open>x: int = 0\<close>: the RepairLog is \<open>['sub.x']\<close>.
\<close>

theorem nested_paths_are_dotted_witness:
  "fix_data py_host
       (Cls [(''sub'', Blossom (Cls [(''x'', Plain PInt)] [(''x'', VInt 0)]))]
            [(''sub'', VDict [(''x'', VInt 0)])])
       (VDict [(''sub'', VDict [(''x'', VStr ''bad'')])]) []
     = Inr ([(''sub'', VDict [(''x'', VInt 0)])], [''sub.x''])
   \<and> fix_data py_host (Cls [(''x'', Plain PInt)] [(''x'', VInt 0)])
         (VDict [(''x'', VStr ''bad'')]) [] = Inr ([(''x'', VInt 0)], [''x''])
   \<and> intercalate ''.'' ([] @ [''sub'', ''x'']) = ''sub.x''"
proof -
  have run: "fix_data py_host
       (Cls [(''sub'', Blossom (Cls [(''x'', Plain PInt)] [(''x'', VInt 0)]))]
            [(''sub'', VDict [(''x'', VInt 0)])])
       (VDict [(''sub'', VDict [(''x'', VStr ''bad'')])]) []
     = Inr ([(''sub'', VDict [(''x'', VInt 0)])], [''sub.x''])"
    by (simp add: fix_eval int_of_str_def max_str_digits_def strip_def is_space_def is_digit_def)
  have field: "(''sub'', Blossom (Cls [(''x'', Plain PInt)] [(''x'', VInt 0)]))
      \<in> set [(''sub'', Blossom (Cls [(''x'', Plain PInt)] [(''x'', VInt 0)]))]" by simp
  have present: "map_of [(''sub'', VDict [(''x'', VStr ''bad'')])] ''sub''
      = Some (VDict [(''x'', VStr ''bad'')])" by simp
  from nested_paths_are_dotted[OF run field present] run show ?thesis
    by (simp add: fix_eval int_of_str_def max_str_digits_def strip_def is_space_def is_digit_def)
qed

lemma fields_stable_field:
  "fields_stable h dflt anns \<Longrightarrow> (key, ty) \<in> set anns \<Longrightarrow>
   (case ty of
      Plain t \<Rightarrow> (case map_of dflt key of None \<Rightarrow> True | Some dv \<Rightarrow> accepts h t dv)
    | Blossom c \<Rightarrow>
        defaults_stable h c
        \<and> (case map_of dflt key of None \<Rightarrow> True | Some dv \<Rightarrow> quiet (fix_data h c dv [])))"
  by (induction anns) auto

lemma quiet_father: "quiet (fix_data h c v []) \<Longrightarrow> quiet (fix_data h c v fs)"
  by (subst fix_data_father_nodes) (auto simp: quiet_def lift_paths_def split: sum.splits)

lemma fix_loop_quiet:
  assumes "\<And>key ty. (key, ty) \<in> set anns \<Longrightarrow> \<exists>vo. field_result h dflt d fs key ty = Inr (vo, [])"
  shows "\<exists>F. fix_loop h anns dflt (VDict d) fs fixed ns = Inr (F, ns)"
  using assms
proof (induction anns arbitrary: fixed)
  case Nil
  show ?case by simp
next
  case (Cons a anns)
  obtain key ty where a: "a = (key, ty)" by (cases a)
  from Cons.prems[of key ty] obtain vo where
    r: "field_result h dflt d fs key ty = Inr (vo, [])" by (auto simp: a)
  have "\<exists>F. fix_loop h anns dflt (VDict d) fs (store key vo fixed) ns = Inr (F, ns)"
  proof (rule Cons.IH)
    fix k t
    assume "(k, t) \<in> set anns"
    then have "(k, t) \<in> set (a # anns)" by simp
    then show "\<exists>vo. field_result h dflt d fs k t = Inr (vo, [])" by (rule Cons.prems)
  qed
  then show ?case by (simp add: a fix_loop_step r)
qed

lemma second_pass_field:
  assumes host: "coercion_stable h"
    and nested: "\<And>c v fs F L fs'. ty = Blossom c \<Longrightarrow> defaults_stable h c \<Longrightarrow>
                   fix_data h c v fs = Inr (F, L) \<Longrightarrow> quiet (fix_data h c (VDict F) fs')"
    and stable: "case ty of
                   Plain t \<Rightarrow> (case map_of dflt key of None \<Rightarrow> True | Some dv \<Rightarrow> accepts h t dv)
                 | Blossom c \<Rightarrow>
                     defaults_stable h c
                     \<and> (case map_of dflt key of None \<Rightarrow> True
                         | Some dv \<Rightarrow> quiet (fix_data h c dv []))"
    and first: "field_result h dflt d fs key ty = Inr (vo, ps)"
    and out: "map_of F key = vo"
  shows "\<exists>vo'. field_result h dflt F fs' key ty = Inr (vo', [])"
proof (cases ty)
  case (Plain t)
  have acc: "accepts h t v \<Longrightarrow> \<exists>v'. deserialize h v t = Inr v'" for v
    by (auto simp: accepts_def split: sum.splits)
  show ?thesis
  proof (cases vo)
    case None
    with first Plain have "map_of dflt key = None"
      by (auto simp: field_result_def Let_def split: option.splits sum.splits if_splits)
    with None out show ?thesis by (simp add: field_result_def)
  next
    case (Some x)
    have "accepts h t x"
      using first stable host Some
      by (auto simp: field_result_def Let_def Plain coercion_stable_def
            isinstance_Serializable_def
            split: option.splits sum.splits if_splits)
    from acc[OF this] Some out show ?thesis
      by (auto simp: field_result_def Plain)
  qed
next
  case (Blossom c)
  from stable Blossom have sc: "defaults_stable h c" by simp
  show ?thesis
  proof (cases vo)
    case None
    with first Blossom have "map_of dflt key = None"
      by (auto simp: field_result_def Let_def split: option.splits sum.splits prod.splits)
    with None out show ?thesis by (simp add: field_result_def)
  next
    case (Some x)
    have "quiet (fix_data h c x (fs' @ [key]))"
    proof (cases "map_of d key")
      case None
      with first Some Blossom have "map_of dflt key = Some x"
        by (auto simp: field_result_def Let_def split: option.splits)
      with stable Blossom have "quiet (fix_data h c x [])" by simp
      then show ?thesis by (rule quiet_father)
    next
      case v: (Some v)
      with first Some Blossom obtain sd sn where
        "fix_data h c v (fs @ [key]) = Inr (sd, sn)" "x = VDict sd"
        by (auto simp: field_result_def Let_def split: sum.splits prod.splits)
      with nested[OF Blossom sc] show ?thesis by blast
    qed
    with Some out show ?thesis
      by (auto simp: field_result_def Blossom Let_def quiet_def split: sum.splits prod.splits)
  qed
qed

lemma second_pass_quiet_all:
  assumes host: "coercion_stable h"
  shows "\<forall>data fs F L fs'. defaults_stable h c \<longrightarrow> fix_data h c data fs = Inr (F, L) \<longrightarrow>
           quiet (fix_data h c (VDict F) fs')"
proof (rule cls.induct[of
    "\<lambda>ty. \<forall>c'. ty = Blossom c' \<longrightarrow>
       (\<forall>data fs F L fs'. defaults_stable h c' \<longrightarrow> fix_data h c' data fs = Inr (F, L) \<longrightarrow>
           quiet (fix_data h c' (VDict F) fs'))"
    "\<lambda>c. \<forall>data fs F L fs'. defaults_stable h c \<longrightarrow> fix_data h c data fs = Inr (F, L) \<longrightarrow>
           quiet (fix_data h c (VDict F) fs')" c])
  fix t :: 'a
  show "\<forall>c'. Plain t = Blossom c' \<longrightarrow>
       (\<forall>data fs F L fs'. defaults_stable h c' \<longrightarrow> fix_data h c' data fs = Inr (F, L) \<longrightarrow>
           quiet (fix_data h c' (VDict F) fs'))"
    by simp
next
  fix c :: "'a cls"
  assume "\<forall>data fs F L fs'. defaults_stable h c \<longrightarrow> fix_data h c data fs = Inr (F, L) \<longrightarrow>
           quiet (fix_data h c (VDict F) fs')"
  then show "\<forall>c'. Blossom c = Blossom c' \<longrightarrow>
       (\<forall>data fs F L fs'. defaults_stable h c' \<longrightarrow> fix_data h c' data fs = Inr (F, L) \<longrightarrow>
           quiet (fix_data h c' (VDict F) fs'))"
    by blast
next
  fix anns :: "(string \<times> 'a ftype) list" and dflt
  assume IH: "\<And>a ty. a \<in> set anns \<Longrightarrow> ty \<in> Basic_BNFs.snds a \<Longrightarrow>
     \<forall>c'. ty = Blossom c' \<longrightarrow>
       (\<forall>data fs F L fs'. defaults_stable h c' \<longrightarrow> fix_data h c' data fs = Inr (F, L) \<longrightarrow>
           quiet (fix_data h c' (VDict F) fs'))"
  show "\<forall>data fs F L fs'. defaults_stable h (Cls anns dflt) \<longrightarrow>
          fix_data h (Cls anns dflt) data fs = Inr (F, L) \<longrightarrow>
          quiet (fix_data h (Cls anns dflt) (VDict F) fs')"
  proof (intro allI impI)
    fix data fs F L fs'
    assume st: "defaults_stable h (Cls anns dflt)"
      and run: "fix_data h (Cls anns dflt) data fs = Inr (F, L)"
    from st have keys: "distinct (map fst anns)" and fst: "fields_stable h dflt anns"
      by simp_all
    from run have loop: "fix_loop h anns dflt data fs [] [] = Inr (F, L)" by simp
    have "\<exists>F'. fix_loop h anns dflt (VDict F) fs' [] [] = Inr (F', [])"
    proof (cases anns)
      case Nil
      then show ?thesis by simp
    next
      case (Cons a rest)
      with loop obtain d where d: "data = VDict d"
        by (cases "\<exists>d. data = VDict d") (auto simp: fix_loop_not_dict)
      show ?thesis
      proof (rule fix_loop_quiet)
        fix key ty
        assume mem: "(key, ty) \<in> set anns"
        from fix_loop_field[OF loop[unfolded d] mem] keys obtain vo ps where
          first: "field_result h dflt d fs key ty = Inr (vo, ps)" and
          out: "map_of F key = map_of (store key vo []) key"
          by blast
        from out have out': "map_of F key = vo"
          by (simp add: map_of_store split: option.splits)
        show "\<exists>vo'. field_result h dflt F fs' key ty = Inr (vo', [])"
        proof (rule second_pass_field[OF host _ fields_stable_field[OF fst mem] first out'])
          fix c v fs0 F0 L0 fs1
          assume ty: "ty = Blossom c" and sc: "defaults_stable h c"
            and r: "fix_data h c v fs0 = Inr (F0, L0)"
          have "Blossom c \<in> Basic_BNFs.snds (key, Blossom c)" by simp
          from IH[OF mem[unfolded ty] this] sc r
          show "quiet (fix_data h c (VDict F0) fs1)" by blast
        qed
      qed
    qed
    then show "quiet (fix_data h (Cls anns dflt) (VDict F) fs')"
      by (auto simp: quiet_def)
  qed
qed

text \<open>
  C5, under the conditions it needs.  If the coercion is stable and the defaults of the
  schema are stable, reconciling the document produced by a first reconciliation returns
  with an empty RepairLog.
\<close>

theorem reconcile_twice_quiet:
  assumes "coercion_stable h"
    and "defaults_stable h c"
    and "fix_data h c data fs = Inr (fixed, repair_log)"
  shows "\<exists>fixed'. fix_data h c (VDict fixed) fs' = Inr (fixed', [])"
proof -
  from second_pass_quiet_all[OF assms(1), of c] assms(2,3)
  have "quiet (fix_data h c (VDict fixed) fs')" by blast
  then show ?thesis by (auto simp: quiet_def split: sum.splits)
qed

lemma mcdr_deserialize_id:
  "mcdr_deserialize v t = Inr v' \<Longrightarrow> v' = v"
  "deserialize_items xs t = Inr ys \<Longrightarrow> ys = xs"
  "deserialize_values kvs t = Inr kws \<Longrightarrow> kws = kvs"
  by (induction v t and xs t and kvs t arbitrary: v' and ys and kws
        rule: mcdr_deserialize_deserialize_items_deserialize_values.induct)
     (auto split: sum.splits)

lemma py_host_stable: "coercion_stable py_host"
proof -
  have a: "accepts py_host t v'" if "mcdr_deserialize v t = Inr v'" for t v v'
    using that mcdr_deserialize_id(1)[OF that] by (simp add: accepts_def py_host_def)
  have b: "accepts py_host t v'" if "py_construct t v = Some v'" for t v v'
    using that by (cases t; cases v) (auto simp: accepts_def py_host_def)
  show ?thesis
    using a b by (auto simp: coercion_stable_def py_host_def)
qed

text \<open>
  A schema with a plain and a nested field, both repaired in the first pass and none in
  the second.
\<close>

theorem reconcile_twice_quiet_witness:
  "fix_data py_host
        (Cls [(''a'', Plain PInt),
              (''sub'', Blossom (Cls [(''x'', Plain PInt)] [(''x'', VInt 0)]))]
             [(''a'', VInt 5), (''sub'', VDict [(''x'', VInt 0)])])
        (VDict [(''a'', VStr ''abc''), (''sub'', VDict [(''x'', VStr ''bad'')])]) []
       = Inr ([(''a'', VInt 5), (''sub'', VDict [(''x'', VInt 0)])], [''a'', ''sub.x''])
   \<and> fix_data py_host
        (Cls [(''a'', Plain PInt),
              (''sub'', Blossom (Cls [(''x'', Plain PInt)] [(''x'', VInt 0)]))]
             [(''a'', VInt 5), (''sub'', VDict [(''x'', VInt 0)])])
        (VDict [(''a'', VInt 5), (''sub'', VDict [(''x'', VInt 0)])]) []
       = Inr ([(''a'', VInt 5), (''sub'', VDict [(''x'', VInt 0)])], [])"
proof -
  let ?c = "Cls [(''a'', Plain PInt),
              (''sub'', Blossom (Cls [(''x'', Plain PInt)] [(''x'', VInt 0)]))]
             [(''a'', VInt 5), (''sub'', VDict [(''x'', VInt 0)])]"
  have st: "defaults_stable py_host ?c"
    by (simp add: accepts_def quiet_def fix_eval)
  have run: "fix_data py_host ?c
        (VDict [(''a'', VStr ''abc''), (''sub'', VDict [(''x'', VStr ''bad'')])]) []
       = Inr ([(''a'', VInt 5), (''sub'', VDict [(''x'', VInt 0)])], [''a'', ''sub.x''])"
    by (simp add: fix_eval int_of_str_def max_str_digits_def strip_def is_space_def is_digit_def)
  from reconcile_twice_quiet[OF py_host_stable st run, of "[]"] run
  show ?thesis
    by (simp add: fix_eval)
qed

text \<open>
  C5 as stated fails: with the class attribute \<open>a: int = 'x'\<close> the default-serialization
  holds a value that the declared type rejects.  The first pass copies it into the output
  and the second pass repairs the field again, and so does every later pass.
\<close>

theorem ill_typed_default_counterexample:
  "fix_data py_host (Cls [(''a'', Plain PInt)] [(''a'', VStr ''x'')]) (VDict []) []
     = Inr ([(''a'', VStr ''x'')], [''a''])
   \<and> fix_data py_host (Cls [(''a'', Plain PInt)] [(''a'', VStr ''x'')])
         (VDict [(''a'', VStr ''x'')]) []
     = Inr ([(''a'', VStr ''x'')], [''a''])"
  by (simp add: fix_eval int_of_str_def max_str_digits_def strip_def is_space_def is_digit_def)

section \<open>Properties of loading and saving\<close>

lemma fix_data_not_dict:
  assumes "\<forall>d. data \<noteq> VDict d" and "annotations c \<noteq> []"
  shows "fix_data h c data fs = Inl AttributeError"
proof -
  obtain anns dflt where c: "c = Cls anns dflt" by (cases c)
  with assms(2) obtain a rest where "anns = a # rest" by (cases anns) auto
  with c assms(1) show ?thesis by (simp add: fix_loop_not_dict)
qed

lemma files_enter [simp]:
  "files (reply_to_source_enter v s w) = files w"
  "files (reply_to_source_exit w) = files w"
  "files (record_enter w) = files w"
  "files (record_exit w) = files w"
  by (simp_all add: reply_to_source_enter_def reply_to_source_exit_def record_enter_def
        record_exit_def)

lemma load_raises_on_non_mapping:
  assumes stored: "files w (if in_data_folder then path_join (data_folder h) path else path)
                   = Some (File text)"
    and parsed: "safe_load h (lf text) = Inr v"
    and shape: "\<forall>d. v \<noteq> VDict d"
    and fields: "annotations (schema h) \<noteq> []"
  shows "fst (load h path bundled in_data_folder print_to_console source w) = Inl AttributeError
         \<and> files (snd (load h path bundled in_data_folder print_to_console source w)) = files w"
proof -
  have raised: "fix_data (host h) (schema h) v [] = Inl AttributeError"
    using shape fields by (rule fix_data_not_dict)
  show ?thesis
    using stored parsed
    by (simp add: load_def Let_def lf_read_def raised split: if_splits)
qed

text \<open>
  C1.  \<open>load\<close> is meant never to raise for corrupt data.  An empty configuration file
  is read and parsed without an exception (the document is \<open>None\<close>), \<open>_fix_data\<close> then
  raises \<open>AttributeError\<close> at \<open>data.keys()\<close>, and since that call is outside the handlers
  \<open>load\<close> raises instead of falling back to the defaults.
\<close>

theorem load_raises_on_empty_file:
  "fst (load demo_env ''config.yml'' ''resources/default_cfg.yml'' True True None
          (demo_world (one_file ''config/my_plugin/config.yml'' ''''))) = Inl AttributeError"
proof -
  have p: "path_join (data_folder demo_env) ''config.yml'' = ''config/my_plugin/config.yml''"
    by (simp add: demo_env_def path_join_def)
  have stored: "files (demo_world (one_file ''config/my_plugin/config.yml'' ''''))
                (if True then path_join (data_folder demo_env) ''config.yml'' else ''config.yml'')
              = Some (File '''')"
    by (simp add: p demo_world_def one_file_def)
  have parsed: "safe_load demo_env (lf '''') = Inr VNone"
    by (simp add: demo_env_def demo_parse_def)
  have fields: "annotations (schema demo_env) \<noteq> []"
    by (simp add: demo_env_def)
  from load_raises_on_non_mapping[OF stored parsed _ fields] show ?thesis by simp
qed

lemma basename_append:
  "CHR ''/'' \<notin> set x \<Longrightarrow> basename (p @ x) = basename p @ x"
proof -
  assume "CHR ''/'' \<notin> set x"
  then have "takeWhile (\<lambda>c. c \<noteq> CHR ''/'') (rev x @ rev p)
               = rev x @ takeWhile (\<lambda>c. c \<noteq> CHR ''/'') (rev p)"
    by (intro takeWhile_append2) auto
  then show ?thesis by (simp add: basename_def)
qed

lemma basename_no_slash: "CHR ''/'' \<notin> set (basename p)"
  by (auto simp: basename_def dest: set_takeWhileD)

lemma basename_slash_end: "p = [] \<or> last p = CHR ''/'' \<Longrightarrow> basename p = []"
  by (cases p rule: rev_cases) (auto simp: basename_def)

lemma basename_path_join:
  assumes "CHR ''/'' \<notin> set x"
  shows "basename (path_join a x) = x"
proof -
  have 1: "\<not> (x \<noteq> [] \<and> hd x = CHR ''/'')"
    using assms by (cases x) auto
  have 2: "basename (a @ ''/'' @ x) = x"
    using basename_append[OF assms, of "a @ ''/''"] by (simp add: basename_slash_end)
  have 3: "a = [] \<or> last a = CHR ''/'' \<Longrightarrow> basename (a @ x) = x"
    using basename_append[OF assms, of a] by (simp add: basename_slash_end)
  show ?thesis using 1 2 3 by (auto simp: path_join_def)
qed

lemma basename_temp: "basename (config_temp_path fp) = ''temp_'' @ basename fp"
  unfolding config_temp_path_def
  by (rule basename_path_join) (use basename_no_slash[of fp] in auto)

lemma basename_tmp: "basename (p @ ''.tmp'') = basename p @ ''.tmp''"
  by (rule basename_append) simp

lemma paths_distinct:
  "distinct [fp, fp @ ''.tmp'', config_temp_path fp, config_temp_path fp @ ''.tmp'']"
proof -
  have "length (basename fp) \<noteq> length (basename (fp @ ''.tmp''))"
       "length (basename fp) \<noteq> length (basename (config_temp_path fp))"
       "length (basename fp) \<noteq> length (basename (config_temp_path fp @ ''.tmp''))"
       "length (basename (fp @ ''.tmp'')) \<noteq> length (basename (config_temp_path fp))"
       "length (basename (fp @ ''.tmp'')) \<noteq> length (basename (config_temp_path fp @ ''.tmp''))"
       "length (basename (config_temp_path fp)) \<noteq> length (basename (config_temp_path fp @ ''.tmp''))"
    by (simp_all add: basename_tmp basename_temp)
  then show ?thesis by auto
qed

lemma untouched_refl: "untouched p w w"
  by (simp add: untouched_def steps_ok_def)

lemma untouched_same:
  "files w' = files w \<Longrightarrow> fs_trace w' = fs_trace w \<Longrightarrow> untouched p w w'"
  by (simp add: untouched_def steps_ok_def)

lemma untouched_trans:
  "untouched p w w1 \<Longrightarrow> untouched p w1 w2 \<Longrightarrow> untouched p w w2"
  by (auto simp: untouched_def steps_ok_def)

lemma untouched_lands: "untouched p w w' \<Longrightarrow> lands p w w'"
  by (auto simp: untouched_def lands_def steps_ok_def)

lemma untouched_then_lands:
  "untouched p w w1 \<Longrightarrow> lands p w1 w2 \<Longrightarrow> lands p w w2"
  by (auto simp: untouched_def lands_def steps_ok_def)

lemma lands_then_untouched:
  "lands p w w1 \<Longrightarrow> untouched p w1 w2 \<Longrightarrow> lands p w w2"
  by (auto simp: untouched_def lands_def steps_ok_def)

lemma set_files_proj [simp]:
  "files (set_files f w) = f"
  "fs_trace (set_files f w) = fs_trace w @ [f]"
  "lg (set_files f w) = lg w"
  "console (set_files f w) = console w"
  "replies (set_files f w) = replies w"
  by (simp_all add: set_files_def)

lemma delete_proj [simp]:
  "files (delete q w) = (files w)(q := None)"
  "lg (delete q w) = lg w"
  "console (delete q w) = console w"
  "replies (delete q w) = replies w"
  by (auto simp: delete_def split: option.splits node.splits)

lemma untouched_delete: "q \<noteq> p \<Longrightarrow> untouched p w (delete q w)"
  by (auto simp: untouched_def steps_ok_def delete_def split: option.splits node.splits)

lemma write_text_proj [simp]:
  "files (write_text q text n w) = (files w)(q \<mapsto> File (take n text))"
  "lg (write_text q text n w) = lg w"
  "console (write_text q text n w) = console w"
  "replies (write_text q text n w) = replies w"
  by (induction n) (simp_all add: Let_def)

lemma untouched_write_text: "q \<noteq> p \<Longrightarrow> untouched p w (write_text q text n w)"
proof (induction n)
  case 0
  then show ?case by (simp add: untouched_def steps_ok_def)
next
  case (Suc n)
  have "untouched p (write_text q text n w) (write_text q text (Suc n) w)"
    using Suc.prems by (simp add: untouched_def steps_ok_def Let_def)
  with Suc show ?case by (blast intro: untouched_trans)
qed

lemma os_replace_file:
  assumes "files w source = Some (File text)" and "files w dest \<noteq> Some Dir"
  shows "os_replace source dest w
           = (None, set_files ((files w)(source := None, dest \<mapsto> File text)) w)"
  using assms by (simp add: os_replace_def)

lemma tmp_ne: "target @ ''.tmp'' \<noteq> target"
  by simp

lemma write_then_replace:
  assumes "files w target \<noteq> Some Dir"
  shows "os_replace (target @ ''.tmp'') target
           (write_text (target @ ''.tmp'') text (length text) (delete (target @ ''.tmp'') w))
         = (None, set_files
              ((files (write_text (target @ ''.tmp'') text (length text)
                         (delete (target @ ''.tmp'') w)))
                 (target @ ''.tmp'' := None, target \<mapsto> File text))
              (write_text (target @ ''.tmp'') text (length text) (delete (target @ ''.tmp'') w)))"
  apply (rule os_replace_file)
   apply simp
  apply (simp add: assms)
  done


lemma safe_write_ok:
  assumes "files w target \<noteq> Some Dir"
  shows "\<exists>w'. safe_write target text w = (None, w')
           \<and> files w' = (files w)(target @ ''.tmp'' := None, target \<mapsto> File text)
           \<and> lg w' = lg w \<and> console w' = console w \<and> replies w' = replies w
           \<and> lands target w w'
           \<and> (\<forall>p. p \<noteq> target \<and> p \<noteq> target @ ''.tmp'' \<longrightarrow> untouched p w w')"
proof -
  define tmp where "tmp = target @ ''.tmp''"
  define w2 where "w2 = write_text tmp text (length text) (delete tmp w)"
  define w3 where "w3 = set_files ((files w2)(tmp := None, target \<mapsto> File text)) w2"
  have ne: "tmp \<noteq> target" by (simp add: tmp_def)
  have f2: "files w2 = (files w)(tmp \<mapsto> File text)"
    by (simp add: w2_def)
  have sw: "safe_write target text w = (None, w3)"
    unfolding safe_write_def Let_def w3_def w2_def tmp_def
    by (rule write_then_replace[OF assms])
  have u12: "untouched p w w2" if "p \<noteq> tmp" for p
    unfolding w2_def
    by (rule untouched_trans[OF untouched_delete untouched_write_text]) (use that in auto)
  have u3: "untouched p w2 w3" if "p \<noteq> tmp" "p \<noteq> target" for p
    using that by (simp add: untouched_def steps_ok_def w3_def)
  have l3: "lands target w2 w3"
    by (simp add: lands_def steps_ok_def w3_def)
  have l: "lands target w w3"
    by (rule untouched_then_lands[OF u12 l3]) (use ne in simp)
  have u: "\<forall>p. p \<noteq> target \<and> p \<noteq> target @ ''.tmp'' \<longrightarrow> untouched p w w3"
    using u12 u3 unfolding tmp_def[symmetric] by (blast intro: untouched_trans)
  have f3: "files w3 = (files w)(target @ ''.tmp'' := None, target \<mapsto> File text)"
    unfolding tmp_def[symmetric] by (simp add: w3_def f2)
  have rest: "lg w3 = lg w" "console w3 = console w" "replies w3 = replies w"
    by (simp_all add: w3_def w2_def)
  from sw f3 rest l u show ?thesis by blast
qed

lemma emitted_trans:
  "emitted p s ls1 w w1 \<Longrightarrow> emitted p s ls2 w1 w2 \<Longrightarrow> emitted p s (ls1 @ ls2) w w2"
  by (auto simp: emitted_def split: option.splits)

lemma emitted_silent:
  "log_record (lg w') = log_record (lg w) \<Longrightarrow> recording (lg w') = recording (lg w) \<Longrightarrow>
   replies w' = replies w \<Longrightarrow> console w' = console w \<Longrightarrow> emitted p s [] w w'"
  by (auto simp: emitted_def split: option.splits)

lemma log_proj [simp]:
  "files (log m e w) = files w"
  "fs_trace (log m e w) = fs_trace w"
  "console (log m e w) = console w @ (if verbose (lg w) = Some True then [(m, e)] else [])"
  "replies (log m e w) = replies w @ (case src (lg w) of None \<Rightarrow> [] | Some s \<Rightarrow> [(s, m)])"
  "log_record (lg (log m e w)) = log_record (lg w) @ (if recording (lg w) then [m] else [])"
  "recording (lg (log m e w)) = recording (lg w)"
  "verbose (lg (log m e w)) = verbose (lg w)"
  "src (lg (log m e w)) = src (lg w)"
  "cached_verbose (lg (log m e w)) = cached_verbose (lg w)"
  by (simp_all add: log_def Let_def split: option.splits)

lemma enter_proj [simp]:
  "fs_trace (reply_to_source_enter v s w) = fs_trace w"
  "console (reply_to_source_enter v s w) = console w"
  "replies (reply_to_source_enter v s w) = replies w"
  "log_record (lg (reply_to_source_enter v s w)) = log_record (lg w)"
  "recording (lg (reply_to_source_enter v s w)) = recording (lg w)"
  "verbose (lg (reply_to_source_enter v s w)) = Some v"
  "src (lg (reply_to_source_enter v s w)) = s"
  by (simp_all add: reply_to_source_enter_def)

lemma exit_proj [simp]:
  "fs_trace (reply_to_source_exit w) = fs_trace w"
  "console (reply_to_source_exit w) = console w"
  "replies (reply_to_source_exit w) = replies w"
  "log_record (lg (reply_to_source_exit w)) = log_record (lg w)"
  "recording (lg (reply_to_source_exit w)) = recording (lg w)"
  by (simp_all add: reply_to_source_exit_def)

lemma emitted_warn:
  "verbose (lg w) = Some p \<Longrightarrow> src (lg w) = s \<Longrightarrow>
   emitted p s [((WARNING, m), e)] w (warn m e w)"
  by (auto simp: emitted_def warn_def split: option.splits)

lemma warn_proj [simp]:
  "files (warn m e w) = files w"
  "fs_trace (warn m e w) = fs_trace w"
  "verbose (lg (warn m e w)) = verbose (lg w)"
  "src (lg (warn m e w)) = src (lg w)"
  by (simp_all add: warn_def)

declare save_inner.simps [simp del]

lemma save_inner_safe_eq:
  "save_inner h self p s True w0 =
     (let w2 = (if files (reply_to_source_enter p s w0) (config_temp_path (file_path self)) \<noteq> None
                then delete (config_temp_path (file_path self)) (reply_to_source_enter p s w0)
                else reply_to_source_enter p s w0)
      in case safe_write (file_path self) (safe_dump h (VDict (serialize h (inst self)))) w2 of
           (Some e, w3) \<Rightarrow> (Some e, reply_to_source_exit w3)
         | (None, w3) \<Rightarrow> (None, reply_to_source_exit (warn safe_dump_warning None w3)))"
  by (subst save_inner.simps) (simp add: Let_def split: prod.splits option.splits)

lemma save_inner_safe:
  assumes nd: "files w (file_path self) \<noteq> Some Dir"
  shows "\<exists>w'. save_inner h self p s True w = (None, w')
           \<and> files w' (file_path self)
               = Some (File (safe_dump h (VDict (serialize h (inst self)))))
           \<and> files w' (config_temp_path (file_path self)) = None
           \<and> emitted p s [((WARNING, safe_dump_warning), None)] w w'
           \<and> lands (file_path self) w w'"
proof -
  define fp where "fp = file_path self"
  define temp where "temp = config_temp_path fp"
  define body where "body = safe_dump h (VDict (serialize h (inst self)))"
  define w1 where "w1 = reply_to_source_enter p s w"
  define w2 where "w2 = (if files w1 temp \<noteq> None then delete temp w1 else w1)"
  from paths_distinct[of fp] have d: "fp \<noteq> temp" "fp @ ''.tmp'' \<noteq> temp"
    by (auto simp: temp_def)
  have f2: "files w2 = (files w)(temp := None)"
    by (auto simp: w2_def w1_def fun_eq_iff)
  have u1: "untouched fp w w1"
    by (rule untouched_same) (simp_all add: w1_def)
  have u2: "untouched fp w1 w2"
    using d untouched_delete[of temp fp w1] by (auto simp: w2_def untouched_refl)
  have q2: "lg w2 = lg w1" "console w2 = console w1" "replies w2 = replies w1"
    by (simp_all add: w2_def)
  have "files w2 fp \<noteq> Some Dir"
    using nd d by (simp add: f2 fp_def)
  from safe_write_ok[OF this, of body] obtain w3 where
    sw: "safe_write fp body w2 = (None, w3)" and
    f3: "files w3 = (files w2)(fp @ ''.tmp'' := None, fp \<mapsto> File body)" and
    q3: "lg w3 = lg w2" "console w3 = console w2" "replies w3 = replies w2" and
    l3: "lands fp w2 w3"
    by blast
  define w' where "w' = reply_to_source_exit (warn safe_dump_warning None w3)"
  have res: "save_inner h self p s True w = (None, w')"
    unfolding save_inner_safe_eq Let_def fp_def[symmetric] temp_def[symmetric]
          body_def[symmetric] w1_def[symmetric] w2_def[symmetric] sw w'_def
    by simp
  have ff: "files w' fp = Some (File body)" "files w' temp = None"
    using d by (simp_all add: w'_def f3 f2)
  have "emitted p s [((WARNING, safe_dump_warning), None)] w3 (warn safe_dump_warning None w3)"
    by (rule emitted_warn) (simp_all add: q3 q2 w1_def)
  then have em: "emitted p s [((WARNING, safe_dump_warning), None)] w w'"
    by (simp add: emitted_def w'_def q3 q2 w1_def)
  have "untouched fp w3 w'"
    by (rule untouched_same) (simp_all add: w'_def)
  with l3 have "lands fp w2 w'" by (rule lands_then_untouched)
  with u2 have "lands fp w1 w'" by (rule untouched_then_lands)
  with u1 have "lands fp w w'" by (rule untouched_then_lands)
  with res ff em show ?thesis
    unfolding fp_def temp_def body_def by blast
qed

lemma save_inner_formatted_eq:
  "save_inner h self p s False w0 =
     (let temp = config_temp_path (file_path self);
          w1 = reply_to_source_enter p s w0;
          w2 = (if files w1 temp \<noteq> None then delete temp w1 else w1);
          config_content = serialize h (inst self);
          (r, w') =
               (case formatted_document h self w2 of
                  Inl e \<Rightarrow> (Some e, w2)
                | Inr (formatted_config, w3) \<Rightarrow>
                    (case overlay h formatted_config config_content of
                       Inl e \<Rightarrow> (Some e, w3)
                     | Inr formatted_config' \<Rightarrow>
                         (case safe_write temp (rt_dump h formatted_config') w3 of
                            (Some e, w4) \<Rightarrow> (Some e, w4)
                          | (None, w4) \<Rightarrow>
                              (case validate h temp w4 of
                                 Inl e \<Rightarrow>
                                   if e = TypeError \<or> e = ValueError then
                                     save_inner h self p s True
                                       (warn format_warning None
                                          (warn validation_warning (Some e) w4))
                                   else (Some e, w4)
                               | Inr checked \<Rightarrow> os_replace temp (file_path self) w4))))
      in (r, reply_to_source_exit w'))"
  by (subst save_inner.simps) (simp only: if_False)

lemma formatted_document_world:
  assumes "formatted_document h self w = Inr (doc, wt)"
  shows "files wt = files w \<and> fs_trace wt = fs_trace w \<and> lg wt = lg w
         \<and> replies wt = replies w \<and> (\<exists>lines. console wt = console w @ lines)"
  using assms
  by (auto simp: formatted_document_def get_template_def
           split: option.splits node.splits sum.splits)

lemma formatted_document_cong:
  assumes "\<forall>t. (files w' (file_path self) = Some (File t))
                = (files w (file_path self) = Some (File t))"
  shows "formatted_document h self w' =
           (case formatted_document h self w of
              Inl e \<Rightarrow> Inl e
            | Inr (doc, wt) \<Rightarrow>
                Inr (doc, w'\<lparr>console := console w' @ drop (length (console w)) (console wt)\<rparr>))"
proof (cases "files w (file_path self)")
  case None
  with assms have "\<forall>t. files w' (file_path self) \<noteq> Some (File t)" by simp
  with None show ?thesis
    by (auto simp: formatted_document_def get_template_def
             split: option.splits node.splits sum.splits)
next
  case (Some n)
  show ?thesis
  proof (cases n)
    case (File t)
    with Some assms have "files w' (file_path self) = Some (File t)" by simp
    with Some File show ?thesis
      by (auto simp: formatted_document_def split: sum.splits)
  next
    case Dir
    with Some assms have "\<forall>t. files w' (file_path self) \<noteq> Some (File t)" by simp
    with Some Dir show ?thesis
      by (auto simp: formatted_document_def get_template_def
               split: option.splits node.splits sum.splits)
  qed
qed

lemma untouched_exit: "untouched q w (reply_to_source_exit w)"
  by (rule untouched_same) simp_all

lemma untouched_enter: "untouched q w (reply_to_source_enter p s w)"
  by (rule untouched_same) simp_all

lemma untouched_warn: "untouched q w (warn m e w)"
  by (rule untouched_same) simp_all

lemma lands_os_replace: "lands dest w (snd (os_replace source dest w))"
  by (auto simp: os_replace_def lands_def steps_ok_def split: option.splits node.splits)

lemma safe_write_lands: "lands target w (snd (safe_write target body w))"
proof -
  define tmp where "tmp = target @ ''.tmp''"
  define w2 where "w2 = write_text tmp body (length body) (delete tmp w)"
  have ne: "tmp \<noteq> target" by (simp add: tmp_def)
  have "untouched target w w2"
    unfolding w2_def
    by (rule untouched_trans[OF untouched_delete untouched_write_text]) (use ne in auto)
  then have "lands target w (snd (os_replace tmp target w2))"
    using lands_os_replace by (rule untouched_then_lands)
  then show ?thesis
    by (simp add: safe_write_def Let_def tmp_def w2_def)
qed

lemma save_inner_safe_lands:
  "lands (file_path self) w (snd (save_inner h self p s True w))"
proof -
  define fp where "fp = file_path self"
  define temp where "temp = config_temp_path fp"
  define body where "body = safe_dump h (VDict (serialize h (inst self)))"
  define w1 where "w1 = reply_to_source_enter p s w"
  define w2 where "w2 = (if files w1 temp \<noteq> None then delete temp w1 else w1)"
  from paths_distinct[of fp] have d: "fp \<noteq> temp" by (auto simp: temp_def)
  have u1: "untouched fp w w1"
    unfolding w1_def by (rule untouched_enter)
  have "untouched fp w1 w2"
    using d untouched_delete[of temp fp w1] by (auto simp: w2_def untouched_refl)
  with u1 have u2: "untouched fp w w2" by (rule untouched_trans)
  obtain r w3 where sw: "safe_write fp body w2 = (r, w3)"
    by (cases "safe_write fp body w2")
  have "lands fp w2 w3"
    using safe_write_lands[of fp w2 body] by (simp add: sw)
  with u2 have l3: "lands fp w w3" by (rule untouched_then_lands)
  note eq = save_inner_safe_eq[of h self p s w, unfolded Let_def,
      folded fp_def, folded temp_def, folded body_def, folded w1_def, folded w2_def]
  show ?thesis
  proof (cases r)
    case None
    have "untouched fp w3 (reply_to_source_exit (warn safe_dump_warning None w3))"
      by (rule untouched_same) simp_all
    with l3 have "lands fp w (reply_to_source_exit (warn safe_dump_warning None w3))"
      by (rule lands_then_untouched)
    then show ?thesis
      unfolding fp_def[symmetric] by (simp add: eq sw None)
  next
    case (Some e)
    have "lands fp w (reply_to_source_exit w3)"
      using l3 untouched_exit by (rule lands_then_untouched)
    then show ?thesis
      unfolding fp_def[symmetric] by (simp add: eq sw Some)
  qed
qed

lemma save_inner_lands:
  "lands (file_path self) w (snd (save_inner h self p s False w))"
proof -
  define fp where "fp = file_path self"
  define temp where "temp = config_temp_path fp"
  define w1 where "w1 = reply_to_source_enter p s w"
  define w2 where "w2 = (if files w1 temp \<noteq> None then delete temp w1 else w1)"
  from paths_distinct[of fp] have d: "fp \<noteq> temp" "fp \<noteq> temp @ ''.tmp''"
    by (auto simp: temp_def)
  have u1: "untouched fp w w1"
    unfolding w1_def by (rule untouched_enter)
  have "untouched fp w1 w2"
    using d untouched_delete[of temp fp w1] by (auto simp: w2_def untouched_refl)
  with u1 have u2: "untouched fp w w2" by (rule untouched_trans)
  have f2: "files w2 temp = None" by (auto simp: w2_def)
  note eq = save_inner_formatted_eq[of h self p s w, unfolded Let_def,
      folded fp_def, folded temp_def, folded w1_def, folded w2_def]
  show ?thesis
  proof (cases "formatted_document h self w2")
    case (Inl e)
    have "untouched fp w (reply_to_source_exit w2)"
      using u2 untouched_exit by (rule untouched_trans)
    then show ?thesis
      unfolding fp_def[symmetric] by (simp add: eq Inl untouched_lands)
  next
    case (Inr r)
    obtain doc w3 where r: "r = (doc, w3)" by (cases r)
    from formatted_document_world[OF Inr[unfolded r]]
    have q3: "files w3 = files w2" "fs_trace w3 = fs_trace w2" by auto
    then have "untouched fp w2 w3" by (rule untouched_same)
    with u2 have u3: "untouched fp w w3" by (rule untouched_trans)
    show ?thesis
    proof (cases "overlay h doc (serialize h (inst self))")
      case (Inl e)
      have "untouched fp w (reply_to_source_exit w3)"
        using u3 untouched_exit by (rule untouched_trans)
      then show ?thesis
        unfolding fp_def[symmetric] by (simp add: eq Inr r Inl untouched_lands)
    next
      case doc': (Inr doc')
      have "files w3 temp \<noteq> Some Dir" by (simp add: q3 f2)
      from safe_write_ok[OF this, of "rt_dump h doc'"] obtain w4 where
        sw: "safe_write temp (rt_dump h doc') w3 = (None, w4)" and
        u34: "\<forall>q. q \<noteq> temp \<and> q \<noteq> temp @ ''.tmp'' \<longrightarrow> untouched q w3 w4"
        by blast
      from u34 d have "untouched fp w3 w4" by simp
      with u3 have u4: "untouched fp w w4" by (rule untouched_trans)
      show ?thesis
      proof (cases "validate h temp w4")
        case (Inr checked)
        obtain r5 w5 where o: "os_replace temp fp w4 = (r5, w5)"
          by (cases "os_replace temp fp w4")
        have "lands fp w4 w5"
          using lands_os_replace[of fp w4 temp] by (simp add: o)
        with u4 have "lands fp w w5" by (rule untouched_then_lands)
        then have "lands fp w (reply_to_source_exit w5)"
          using untouched_exit by (rule lands_then_untouched)
        then show ?thesis
          unfolding fp_def[symmetric]
          by (simp add: eq \<open>formatted_document h self w2 = Inr r\<close> r doc' sw Inr o)
      next
        case (Inl e)
        show ?thesis
        proof (cases "e = TypeError \<or> e = ValueError")
          case False
          have "untouched fp w (reply_to_source_exit w4)"
            using u4 untouched_exit by (rule untouched_trans)
          then show ?thesis
            unfolding fp_def[symmetric]
            using False
            by (simp add: eq \<open>formatted_document h self w2 = Inr r\<close> r doc' sw Inl
                  untouched_lands)
        next
          case True
          define w5 where "w5 = warn format_warning None (warn validation_warning (Some e) w4)"
          have "untouched fp w4 w5"
            unfolding w5_def by (rule untouched_same) simp_all
          with u4 have u5: "untouched fp w w5" by (rule untouched_trans)
          obtain r6 w6 where o: "save_inner h self p s True w5 = (r6, w6)"
            by (cases "save_inner h self p s True w5")
          have l56: "lands fp w5 w6"
            using save_inner_safe_lands[of self w5 h p s] by (simp add: o fp_def)
          with u5 have "lands fp w w6" by (rule untouched_then_lands)
          then have "lands fp w (reply_to_source_exit w6)"
            using untouched_exit by (rule lands_then_untouched)
          then show ?thesis
            unfolding fp_def[symmetric]
            using True
            by (simp add: eq \<open>formatted_document h self w2 = Inr r\<close> r doc' sw Inl
                  w5_def[symmetric] o)
        qed
      qed
    qed
  qed
qed

text \<open>
  C8.  When the real path holds a file or nothing, every state the file system goes
  through during \<open>save\<close>, the partially written ones included, has at the real path
  either the entry from before \<open>save\<close> or the entry \<open>save\<close> leaves there.  Text is
  only ever written to temporary paths and reaches its target by \<open>os.replace\<close>.
\<close>

theorem save_never_partial:
  assumes "files w (file_path self) \<noteq> Some Dir"
  shows "\<exists>steps. fs_trace (snd (save h self p s w)) = fs_trace w @ steps
           \<and> (\<forall>st \<in> set steps.
                 st (file_path self) = files w (file_path self)
                 \<or> st (file_path self) = files (snd (save h self p s w)) (file_path self))"
proof -
  have "save h self p s w = save_inner h self p s False w"
    using assms by (simp add: save_def)
  with save_inner_lands[of self w h p s] show ?thesis
    by (simp add: lands_def steps_ok_def)
qed

lemma validate_written:
  "files w temp = Some (File body) \<Longrightarrow> validate h temp w = check_text h (lf body)"
  by (simp add: validate_def lf_read_def)

text \<open>
  C7, as the code has it.  When the merged document has been written to the temporary
  path and validating it fails with \<open>TypeError\<close> or \<open>ValueError\<close>, \<open>save\<close> returns
  normally; the real path then holds the plain safe dump of the instance and the temporary
  file is gone; and exactly three warnings have been issued, in this order: the two of
  the handler and the one of the safe-dump run, which therefore ran once.
\<close>

theorem fallback_runs_once:
  assumes base: "formatted_document h self w = Inr (doc, wt)"
    and merged: "overlay h doc (serialize h (inst self)) = Inr doc'"
    and invalid: "check_text h (lf (rt_dump h doc')) = Inl e"
    and kind: "e = TypeError \<or> e = ValueError"
  shows "\<exists>w'. save h self p s w = (None, w')
           \<and> files w' (file_path self)
               = Some (File (safe_dump h (VDict (serialize h (inst self)))))
           \<and> files w' (config_temp_path (file_path self)) = None
           \<and> log_record (lg w') = log_record (lg w) @
                 (if recording (lg w)
                  then [(WARNING, validation_warning), (WARNING, format_warning),
                        (WARNING, safe_dump_warning)]
                  else [])
           \<and> replies w' = replies w @
                 (case s of
                    None \<Rightarrow> []
                  | Some source \<Rightarrow>
                      [(source, (WARNING, validation_warning)),
                       (source, (WARNING, format_warning)),
                       (source, (WARNING, safe_dump_warning))])
           \<and> console w' = console wt @
                 (if p
                  then [((WARNING, validation_warning), Some e),
                        ((WARNING, format_warning), None),
                        ((WARNING, safe_dump_warning), None)]
                  else [])"
proof -
  define fp where "fp = file_path self"
  define temp where "temp = config_temp_path fp"
  define w0 where "w0 = (if files w fp = Some Dir
                         then set_files ((files w)(fp := None)) w else w)"
  define w1 where "w1 = reply_to_source_enter p s w0"
  define w2 where "w2 = (if files w1 temp \<noteq> None then delete temp w1 else w1)"
  from paths_distinct[of fp] have d: "fp \<noteq> temp" "fp \<noteq> temp @ ''.tmp''"
    by (auto simp: temp_def)
  have s0: "save h self p s w = save_inner h self p s False w0"
    by (simp add: save_def w0_def fp_def Let_def)
  have nd0: "files w0 fp \<noteq> Some Dir" by (simp add: w0_def)
  have file0: "\<forall>t. (files w0 fp = Some (File t)) = (files w fp = Some (File t))"
    by (simp add: w0_def)
  have q0: "lg w0 = lg w" "console w0 = console w" "replies w0 = replies w"
    by (simp_all add: w0_def)
  have f2: "files w2 = (files w0)(temp := None)"
    by (auto simp: w2_def w1_def fun_eq_iff)
  have q2: "lg w2 = lg w1" "console w2 = console w" "replies w2 = replies w"
    by (simp_all add: w2_def w1_def q0)
  have l1: "verbose (lg w1) = Some p" "src (lg w1) = s"
           "log_record (lg w1) = log_record (lg w)" "recording (lg w1) = recording (lg w)"
    by (simp_all add: w1_def q0)
  have "\<forall>t. (files w2 (file_path self) = Some (File t)) = (files w (file_path self) = Some (File t))"
    using file0 d by (simp add: f2 fp_def)
  from formatted_document_cong[OF this, of h]
  have fd: "formatted_document h self w2 =
              Inr (doc, w2\<lparr>console := console w2 @ drop (length (console w)) (console wt)\<rparr>)"
    by (simp add: base)
  define w3 where "w3 = w2\<lparr>console := console w2 @ drop (length (console w)) (console wt)\<rparr>"
  from formatted_document_world[OF base] have c3: "console w3 = console wt"
    by (auto simp: w3_def q2)
  have q3: "files w3 = files w2" "lg w3 = lg w1" "replies w3 = replies w"
    by (simp_all add: w3_def q2)
  have "files w3 temp \<noteq> Some Dir" by (simp add: q3 f2)
  from safe_write_ok[OF this, of "rt_dump h doc'"] obtain w4 where
    sw: "safe_write temp (rt_dump h doc') w3 = (None, w4)" and
    f4: "files w4 = (files w3)(temp @ ''.tmp'' := None, temp \<mapsto> File (rt_dump h doc'))" and
    q4: "lg w4 = lg w3" "console w4 = console w3" "replies w4 = replies w3"
    by blast
  have v: "validate h temp w4 = Inl e"
    by (simp add: validate_written[of w4 temp "rt_dump h doc'"] f4 invalid)
  define w5 where "w5 = warn format_warning None (warn validation_warning (Some e) w4)"
  have e45: "emitted p s [((WARNING, validation_warning), Some e), ((WARNING, format_warning), None)]
               w4 w5"
  proof -
    have a: "emitted p s [((WARNING, validation_warning), Some e)] w4
               (warn validation_warning (Some e) w4)"
      by (rule emitted_warn) (simp_all add: q4 q3 l1)
    have b: "emitted p s [((WARNING, format_warning), None)]
               (warn validation_warning (Some e) w4) w5"
      unfolding w5_def by (rule emitted_warn) (simp_all add: q4 q3 l1)
    from emitted_trans[OF a b] show ?thesis by simp
  qed
  have "files w5 fp \<noteq> Some Dir"
    using d nd0 by (simp add: w5_def f4 q3 f2)
  then have "files w5 (file_path self) \<noteq> Some Dir" by (simp add: fp_def)
  from save_inner_safe[OF this, of h p s] obtain w6 where
    si: "save_inner h self p s True w5 = (None, w6)" and
    f6: "files w6 fp = Some (File (safe_dump h (VDict (serialize h (inst self)))))"
        "files w6 temp = None" and
    e56: "emitted p s [((WARNING, safe_dump_warning), None)] w5 w6"
    unfolding fp_def temp_def by blast
  from emitted_trans[OF e45 e56]
  have e46: "emitted p s [((WARNING, validation_warning), Some e),
                          ((WARNING, format_warning), None),
                          ((WARNING, safe_dump_warning), None)] w4 w6"
    by simp
  define w' where "w' = reply_to_source_exit w6"
  note eq = save_inner_formatted_eq[of h self p s w0, unfolded Let_def,
      folded fp_def, folded temp_def, folded w1_def, folded w2_def]
  have res: "save h self p s w = (None, w')"
    using kind
    by (simp add: s0 eq fd w3_def[symmetric] merged sw v w5_def[symmetric] si w'_def)
  have ff: "files w' fp = Some (File (safe_dump h (VDict (serialize h (inst self)))))"
           "files w' temp = None"
    by (simp_all add: w'_def f6)
  have sinks:
    "log_record (lg w') = log_record (lg w) @
       (if recording (lg w)
        then [(WARNING, validation_warning), (WARNING, format_warning),
              (WARNING, safe_dump_warning)]
        else [])"
    "replies w' = replies w @
       (case s of
          None \<Rightarrow> []
        | Some source \<Rightarrow>
            [(source, (WARNING, validation_warning)),
             (source, (WARNING, format_warning)),
             (source, (WARNING, safe_dump_warning))])"
    "console w' = console wt @
       (if p
        then [((WARNING, validation_warning), Some e),
              ((WARNING, format_warning), None),
              ((WARNING, safe_dump_warning), None)]
        else [])"
    using e46
    by (auto simp: emitted_def w'_def q4 q3 l1 c3 split: option.splits)
  from res ff sinks show ?thesis
    unfolding fp_def temp_def by blast
qed

lemma demo_temp: "config_temp_path ''config.yml'' = ''temp_config.yml''"
  by (simp add: config_temp_path_def dirname_def basename_def path_join_def)

lemmas demo_defs = demo_config_def demo_env_def demo_world_def no_files_def demo_parse_def demo_text_def
  demo_deserialize_def demo_setitem_def new_logger_def

text \<open>
  An instance holding \<open>a = 'x'\<close> is saved where no file exists: the merged template
  fails validation with \<open>TypeError\<close> and the safe dump is written.
\<close>

theorem fallback_runs_once_witness:
  "formatted_document demo_env (demo_config [(''a'', VStr ''x'')]) (demo_world no_files)
     = Inr (VDict [(''a'', VInt 5)], demo_world no_files)
   \<and> overlay demo_env (VDict [(''a'', VInt 5)])
         (serialize demo_env (inst (demo_config [(''a'', VStr ''x'')])))
       = Inr (VDict [(''a'', VStr ''x'')])
   \<and> check_text demo_env (lf (rt_dump demo_env (VDict [(''a'', VStr ''x'')]))) = Inl TypeError
   \<and> fst (save demo_env (demo_config [(''a'', VStr ''x'')]) True None (demo_world no_files))
       = None
   \<and> files (snd (save demo_env (demo_config [(''a'', VStr ''x'')]) True None
                   (demo_world no_files))) ''config.yml'' = Some (File ''a: x'')
   \<and> console (snd (save demo_env (demo_config [(''a'', VStr ''x'')]) True None
                     (demo_world no_files)))
       = [((WARNING, validation_warning), Some TypeError),
          ((WARNING, format_warning), None),
          ((WARNING, safe_dump_warning), None)]"
proof -
  have base: "formatted_document demo_env (demo_config [(''a'', VStr ''x'')])
                (demo_world no_files)
              = Inr (VDict [(''a'', VInt 5)], demo_world no_files)"
    by (simp add: formatted_document_def get_template_def demo_defs)
  have merged: "overlay demo_env (VDict [(''a'', VInt 5)])
                  (serialize demo_env (inst (demo_config [(''a'', VStr ''x'')])))
                = Inr (VDict [(''a'', VStr ''x'')])"
    by (simp add: demo_defs)
  have invalid: "check_text demo_env (lf (rt_dump demo_env (VDict [(''a'', VStr ''x'')])))
                 = Inl TypeError"
    by (simp add: check_text_def demo_defs)
  have kind: "TypeError = TypeError \<or> TypeError = ValueError" by simp
  have dump: "safe_dump demo_env (VDict (serialize demo_env (inst (demo_config [(''a'', VStr ''x'')]))))
              = ''a: x''"
    by (simp add: demo_defs)
  from fallback_runs_once[OF base merged invalid kind, of True None]
  obtain w' where
    "save demo_env (demo_config [(''a'', VStr ''x'')]) True None (demo_world no_files)
       = (None, w')"
    "files w' (file_path (demo_config [(''a'', VStr ''x'')])) = Some (File ''a: x'')"
    "console w' = console (demo_world no_files :: nat world) @
       [((WARNING, validation_warning), Some TypeError),
        ((WARNING, format_warning), None),
        ((WARNING, safe_dump_warning), None)]"
    unfolding dump by auto
  with base merged invalid show ?thesis
    by (simp add: demo_config_def demo_world_def)
qed

text \<open>
  C7 as stated fails: when re-parsing the temporary file fails with an exception that is
  neither \<open>TypeError\<close> nor \<open>ValueError\<close>, \<open>save\<close> raises, no warning is issued and
  nothing is written to the real path.
\<close>

theorem other_failure_skips_fallback_counterexample:
  "check_text tagged_env (lf (rt_dump tagged_env (VDict [(''a'', VInt 5)]))) = Inl OtherError
   \<and> fst (save tagged_env (demo_config [(''a'', VInt 5)]) True None (demo_world no_files))
       = Some OtherError
   \<and> files (snd (save tagged_env (demo_config [(''a'', VInt 5)]) True None
                   (demo_world no_files))) ''config.yml'' = None
   \<and> console (snd (save tagged_env (demo_config [(''a'', VInt 5)]) True None
                     (demo_world no_files))) = []"
proof -
  have c: "check_text tagged_env (lf (rt_dump tagged_env (VDict [(''a'', VInt 5)])))
           = Inl OtherError"
    by (simp add: check_text_def tagged_env_def demo_defs)
  have fd: "formatted_document tagged_env (demo_config [(''a'', VInt 5)]) w
            = Inr (VDict [(''a'', VInt 5)], w)" if "files w ''config.yml'' = None" for w :: "nat world"
    using that by (simp add: formatted_document_def get_template_def tagged_env_def demo_defs)
  have ov: "overlay tagged_env (VDict [(''a'', VInt 5)])
              (serialize tagged_env (inst (demo_config [(''a'', VInt 5)])))
            = Inr (VDict [(''a'', VInt 5)])"
    by (simp add: tagged_env_def demo_defs)
  define w1 where "w1 = reply_to_source_enter True None (demo_world no_files :: nat world)"
  have f1: "files w1 = Map.empty" "console w1 = []"
    by (simp_all add: w1_def demo_world_def no_files_def)
  have "files w1 ''temp_config.yml'' \<noteq> Some Dir" by (simp add: f1)
  from safe_write_ok[OF this, of "''a: !tag 5''"] obtain w4 where
    sw: "safe_write ''temp_config.yml'' ''a: !tag 5'' w1 = (None, w4)" and
    f4: "files w4 = (files w1)(''temp_config.yml'' @ ''.tmp'' := None,
                              ''temp_config.yml'' \<mapsto> File ''a: !tag 5'')" and
    q4: "console w4 = console w1"
    by blast
  have v: "validate tagged_env ''temp_config.yml'' w4 = Inl OtherError"
    using c by (simp add: validate_written[of w4 _ "''a: !tag 5''"] f4 tagged_env_def)
  have rd: "rt_dump tagged_env (VDict [(''a'', VInt 5)]) = ''a: !tag 5''"
    by (simp add: tagged_env_def)
  have fp: "file_path (demo_config [(''a'', VInt 5)]) = ''config.yml''"
    by (simp add: demo_config_def)
  have s0: "save tagged_env (demo_config [(''a'', VInt 5)]) True None (demo_world no_files)
            = save_inner tagged_env (demo_config [(''a'', VInt 5)]) True None False
                (demo_world no_files :: nat world)"
    by (simp add: save_def fp demo_world_def no_files_def)
  have t1: "files w1 ''temp_config.yml'' = None" by (simp add: f1)
  note eq = save_inner_formatted_eq[of tagged_env "demo_config [(''a'', VInt 5)]" True None
      "demo_world no_files :: nat world", unfolded Let_def fp demo_temp, folded w1_def]
  have res: "save tagged_env (demo_config [(''a'', VInt 5)]) True None (demo_world no_files)
              = (Some OtherError, reply_to_source_exit w4)"
    unfolding s0 eq by (simp add: t1 fd f1 ov rd sw v)
  show ?thesis
    by (simp add: c res f4 f1 q4)
qed

text \<open>
  A save over an existing file \<open>config.yml\<close>.
\<close>

theorem save_never_partial_witness:
  "files (demo_world (one_file ''config.yml'' ''a: 1''))
       (file_path (demo_config [(''a'', VInt 5)])) \<noteq> Some Dir
   \<and> map (entry_at ''config.yml'')
         (fs_trace (snd (save demo_env (demo_config [(''a'', VInt 5)]) True None
                           (demo_world (one_file ''config.yml'' ''a: 1'')))))
       = [Some (File ''a: 1''), Some (File ''a: 1''), Some (File ''a: 1''),
          Some (File ''a: 1''), Some (File ''a: 1''), Some (File ''a: 1''),
          Some (File ''a: 5'')]
   \<and> map (entry_at ''temp_config.yml.tmp'')
         (fs_trace (snd (save demo_env (demo_config [(''a'', VInt 5)]) True None
                           (demo_world (one_file ''config.yml'' ''a: 1'')))))
       = [Some (File ''''), Some (File ''a''), Some (File ''a:''), Some (File ''a: ''),
          Some (File ''a: 5''), None, None]"
proof -
  have h: "files (demo_world (one_file ''config.yml'' ''a: 1''))
       (file_path (demo_config [(''a'', VInt 5)])) \<noteq> Some Dir"
    by (simp add: demo_world_def demo_config_def one_file_def)
  from save_never_partial[OF h, of demo_env True None] h show ?thesis
    by (simp add: save_def save_inner_formatted_eq Let_def demo_defs one_file_def demo_temp
          formatted_document_def safe_write_def delete_def set_files_def
          os_replace_def validate_def lf_read_def check_text_def entry_at_def
          reply_to_source_enter_def reply_to_source_exit_def)
qed

text \<open>
  The handled branch for comparison: a file that the parser rejects is deleted, the
  defaults are used and saved, and \<open>load\<close> returns the default configuration.
\<close>

lemma demo_data_temp:
  "config_temp_path ''config/my_plugin/config.yml'' = ''config/my_plugin/temp_config.yml''"
  by (simp add: config_temp_path_def dirname_def basename_def path_join_def)

lemma load_recovers_from_unparsable_file:
  "fst (load demo_env ''config.yml'' ''resources/default_cfg.yml'' True True None
          (demo_world (one_file ''config/my_plugin/config.yml'' ''a: ['')))
     = Inr \<lparr>inst = [(''a'', VInt 5)], file_path = ''config/my_plugin/config.yml'',
            bundled_template_path = ''resources/default_cfg.yml''\<rparr>
   \<and> files (snd (load demo_env ''config.yml'' ''resources/default_cfg.yml'' True True None
                    (demo_world (one_file ''config/my_plugin/config.yml'' ''a: [''))))
         ''config/my_plugin/config.yml'' = Some (File ''a: 5'')
   \<and> map fst (console (snd (load demo_env ''config.yml'' ''resources/default_cfg.yml'' True
                              True None
                              (demo_world (one_file ''config/my_plugin/config.yml'' ''a: ['')))))
     = [(WARNING, read_failed_warning), (INFO, ''Config loaded'')]"
  by (simp add: load_def path_join_def demo_data_temp save_def save_inner_formatted_eq Let_def
        demo_env_def demo_world_def demo_parse_def demo_text_def demo_deserialize_def
        demo_setitem_def new_logger_def one_file_def
        formatted_document_def get_template_def safe_write_def delete_def set_files_def
        os_replace_def validate_def lf_read_def check_text_def
        reply_to_source_enter_def reply_to_source_exit_def record_enter_def record_exit_def
        warn_def info_def log_def)

end
